theory Spec2Isabelle
  imports Main "HOL-Library.Char_ord"
begin

section \<open>Go string primitives used by the resolver\<close>

text \<open>
  Go strings are byte sequences; they are modelled as \<open>string\<close> (a list of 8-bit
  characters). The functions of this section embed the few functions of the Go standard
  library packages \<open>strings\<close> and \<open>strconv\<close> that the resolver calls.
\<close>

text \<open>\<open>strings.HasPrefix(s, prefix)\<close>:
  \<open>len(s) >= len(prefix) && s[:len(prefix)] == prefix\<close>.\<close>

definition HasPrefix :: "string \<Rightarrow> string \<Rightarrow> bool" where
  "HasPrefix s pre = (length pre \<le> length s \<and> take (length pre) s = pre)"

text \<open>\<open>strings.HasSuffix(s, suffix)\<close>:
  \<open>len(s) >= len(suffix) && s[len(s)-len(suffix):] == suffix\<close>.\<close>

definition HasSuffix :: "string \<Rightarrow> string \<Rightarrow> bool" where
  "HasSuffix s suf = (length suf \<le> length s \<and> drop (length s - length suf) s = suf)"

text \<open>\<open>strings.TrimSuffix(s, suffix)\<close>.\<close>

definition TrimSuffix :: "string \<Rightarrow> string \<Rightarrow> string" where
  "TrimSuffix s suf = (if HasSuffix s suf then take (length s - length suf) s else s)"

text \<open>\<open>strings.CutPrefix(s, prefix)\<close>: the string without the prefix and whether the
  prefix was found.\<close>

definition CutPrefix :: "string \<Rightarrow> string \<Rightarrow> string \<times> bool" where
  "CutPrefix s pre = (if HasPrefix s pre then (drop (length pre) s, True) else (s, False))"

text \<open>\<open>strings.Split(s, sep)\<close> for a one-byte separator: the pieces between the
  separators, one more than there are separators (so \<open>Split "" "/"\<close> is the one empty
  piece).\<close>

fun Split :: "string \<Rightarrow> char \<Rightarrow> string list" where
  "Split [] sep = [[]]"
| "Split (c # cs) sep =
     (if c = sep then [] # Split cs sep
      else (case Split cs sep of
              [] \<Rightarrow> [[c]]
            | piece # pieces \<Rightarrow> (c # piece) # pieces))"

text \<open>\<open>strings.Join(elems, sep)\<close>.\<close>

fun Join :: "string list \<Rightarrow> string \<Rightarrow> string" where
  "Join [] sep = []"
| "Join [e] sep = e"
| "Join (e # f # es) sep = e @ sep @ Join (f # es) sep"

text \<open>\<open>strings.LastIndexByte(s, c)\<close>: the index of the last occurrence of \<open>c\<close>
  in \<open>s\<close>, or \<open>-1\<close>.\<close>

fun LastIndexByte :: "string \<Rightarrow> char \<Rightarrow> int" where
  "LastIndexByte [] c = -1"
| "LastIndexByte (x # xs) c =
     (let r = LastIndexByte xs c
      in if r \<noteq> -1 then r + 1 else if x = c then 0 else -1)"

definition isDigit :: "char \<Rightarrow> bool" where
  "isDigit c = (CHR ''0'' \<le> c \<and> c \<le> CHR ''9'')"

text \<open>The value of a string of decimal digits, accumulated as Go does:
  \<open>n = n*10 + int(ch - '0')\<close>.\<close>

definition decimal :: "string \<Rightarrow> int" where
  "decimal ds = foldl (\<lambda>n ch. n * 10 + (of_char ch - 48)) 0 ds"

text \<open>
  \<open>strconv.Atoi(s)\<close>, for the 64-bit \<open>int\<close> of the platforms the proxy is built for:
  an optional sign \<open>+\<close> or \<open>-\<close>, then at least one decimal digit and nothing else; the
  value must lie in the range of \<open>int\<close>. \<open>None\<close> is the error return (syntax or range).
\<close>

definition Atoi :: "string \<Rightarrow> int option" where
  "Atoi s =
     (let neg = (s \<noteq> [] \<and> hd s = CHR ''-'');
          ds = (if s \<noteq> [] \<and> (hd s = CHR ''-'' \<or> hd s = CHR ''+'') then tl s else s)
      in if ds = [] \<or> \<not> list_all isDigit ds then None
         else let n = (if neg then - decimal ds else decimal ds)
              in if - (2 ^ 63) \<le> n \<and> n < 2 ^ 63 then Some n else None)"

section \<open>Semantic versions (golang.org/x/mod/semver)\<close>

text \<open>
  The resolver calls \<open>semver.Build\<close> and \<open>semver.Canonical\<close>. Both rest on the package's
  parser, which is embedded here: \<open>parseInt\<close>, \<open>parsePrerelease\<close>, \<open>parseBuild\<close>
  and \<open>parse\<close>. The index loops of the parser become recursions over the rest of the
  string; \<open>cur\<close> is the identifier read since the last dot (the source's
  \<open>v[start:i]\<close>).
\<close>

record parsed =
  pmajor :: string
  pminor :: string
  ppatch :: string
  pshort :: string
  pprerelease :: string
  pbuild :: string

definition isIdentChar :: "char \<Rightarrow> bool" where
  "isIdentChar c = ((CHR ''A'' \<le> c \<and> c \<le> CHR ''Z'') \<or> (CHR ''a'' \<le> c \<and> c \<le> CHR ''z'')
     \<or> (CHR ''0'' \<le> c \<and> c \<le> CHR ''9'') \<or> c = CHR ''-'')"

text \<open>\<open>isBadNum(v)\<close>: all digits, longer than one, with a leading zero.\<close>

definition isBadNum :: "string \<Rightarrow> bool" where
  "isBadNum v = (let i = length (takeWhile isDigit v)
                 in i = length v \<and> i > 1 \<and> hd v = CHR ''0'')"

text \<open>\<open>parseInt(v)\<close>: the leading run of digits (without a leading zero unless it is
  the single digit \<open>0\<close>) and the rest.\<close>

definition parseInt :: "string \<Rightarrow> (string \<times> string) option" where
  "parseInt v =
     (if v = [] then None
      else if hd v < CHR ''0'' \<or> CHR ''9'' < hd v then None
      else let i = 1 + length (takeWhile isDigit (tl v))
           in if hd v = CHR ''0'' \<and> i \<noteq> 1 then None
              else Some (take i v, drop i v))"

text \<open>The loop of \<open>parsePrerelease\<close>, from index 1: it stops at \<open>+\<close> or at the end of
  the string and returns the text consumed and the rest.\<close>

fun parsePrerelease_loop :: "string \<Rightarrow> string \<Rightarrow> (string \<times> string) option" where
  "parsePrerelease_loop [] cur =
     (if cur = [] \<or> isBadNum cur then None else Some ([], []))"
| "parsePrerelease_loop (c # cs) cur =
     (if c = CHR ''+'' then
        (if cur = [] \<or> isBadNum cur then None else Some ([], c # cs))
      else if \<not> isIdentChar c \<and> c \<noteq> CHR ''.'' then None
      else if c = CHR ''.'' then
        (if cur = [] \<or> isBadNum cur then None
         else map_option (\<lambda>(t, rest). (c # t, rest)) (parsePrerelease_loop cs []))
      else map_option (\<lambda>(t, rest). (c # t, rest)) (parsePrerelease_loop cs (cur @ [c])))"

definition parsePrerelease :: "string \<Rightarrow> (string \<times> string) option" where
  "parsePrerelease v =
     (if v = [] \<or> hd v \<noteq> CHR ''-'' then None
      else map_option (\<lambda>(t, rest). (hd v # t, rest)) (parsePrerelease_loop (tl v) []))"

text \<open>The loop of \<open>parseBuild\<close>, from index 1 to the end of the string; \<open>fresh\<close>
  is the source's \<open>start == i\<close>.\<close>

fun parseBuild_loop :: "string \<Rightarrow> bool \<Rightarrow> bool" where
  "parseBuild_loop [] fresh = (\<not> fresh)"
| "parseBuild_loop (c # cs) fresh =
     (if \<not> isIdentChar c \<and> c \<noteq> CHR ''.'' then False
      else if c = CHR ''.'' then (if fresh then False else parseBuild_loop cs True)
      else parseBuild_loop cs False)"

definition parseBuild :: "string \<Rightarrow> (string \<times> string) option" where
  "parseBuild v =
     (if v = [] \<or> hd v \<noteq> CHR ''+'' then None
      else if parseBuild_loop (tl v) True then Some (v, []) else None)"

text \<open>The tail of \<open>parse\<close>, after the patch number: an optional prerelease, an
  optional build, and nothing more.\<close>

definition parse_tail :: "parsed \<Rightarrow> string \<Rightarrow> parsed option" where
  "parse_tail p v =
     (case (if v \<noteq> [] \<and> hd v = CHR ''-''
            then map_option (\<lambda>(t, rest). (p\<lparr>pprerelease := t\<rparr>, rest)) (parsePrerelease v)
            else Some (p, v)) of
        None \<Rightarrow> None
      | Some (p1, v1) \<Rightarrow>
          (case (if v1 \<noteq> [] \<and> hd v1 = CHR ''+''
                 then map_option (\<lambda>(t, rest). (p1\<lparr>pbuild := t\<rparr>, rest)) (parseBuild v1)
                 else Some (p1, v1)) of
             None \<Rightarrow> None
           | Some (p2, v2) \<Rightarrow> if v2 \<noteq> [] then None else Some p2))"

definition parse :: "string \<Rightarrow> parsed option" where
  "parse v =
     (if v = [] \<or> hd v \<noteq> CHR ''v'' then None
      else case parseInt (tl v) of
        None \<Rightarrow> None
      | Some (ma, v1) \<Rightarrow>
          let p = \<lparr>pmajor = ma, pminor = [], ppatch = [], pshort = [], pprerelease = [], pbuild = []\<rparr>
          in if v1 = [] then Some (p\<lparr>pminor := ''0'', ppatch := ''0'', pshort := ''.0.0''\<rparr>)
             else if hd v1 \<noteq> CHR ''.'' then None
             else case parseInt (tl v1) of
               None \<Rightarrow> None
             | Some (mi, v2) \<Rightarrow>
                 if v2 = [] then Some (p\<lparr>pminor := mi, ppatch := ''0'', pshort := ''.0''\<rparr>)
                 else if hd v2 \<noteq> CHR ''.'' then None
                 else case parseInt (tl v2) of
                   None \<Rightarrow> None
                 | Some (pa, v3) \<Rightarrow> parse_tail (p\<lparr>pminor := mi, ppatch := pa\<rparr>) v3)"

text \<open>\<open>semver.Build(v)\<close>: the build suffix of a valid version, else the empty string.\<close>

definition semver_Build :: "string \<Rightarrow> string" where
  "semver_Build v = (case parse v of None \<Rightarrow> [] | Some pv \<Rightarrow> pbuild pv)"

text \<open>\<open>semver.Canonical(v)\<close>: the version without its build suffix, completed with
  \<open>.0\<close> or \<open>.0.0\<close> when it was shortened; the empty string for an invalid version.\<close>

definition semver_Canonical :: "string \<Rightarrow> string" where
  "semver_Canonical v =
     (case parse v of
        None \<Rightarrow> []
      | Some p \<Rightarrow>
          if pbuild p \<noteq> [] then take (length v - length (pbuild p)) v
          else if pshort p \<noteq> [] then v @ pshort p
          else v)"

section \<open>The major-version split and the version check\<close>

text \<open>
  \<open>splitModuleMajorVer(modulePath)\<close> returns \<open>(path, major, ok)\<close>; a rejected path
  returns \<open>('''', '''', False)\<close>, as the source does.
\<close>

definition splitModuleMajorVer :: "string \<Rightarrow> string \<times> string \<times> bool" where
  "splitModuleMajorVer modulePath =
     (let components = Split modulePath CHR ''/''
      in if \<exists>cpt \<in> set components. length cpt = 0 \<or> hd cpt = CHR ''.''
         then ([], [], False)
         else if length components < 2 then (modulePath, [], True)
         else let lastc = components ! (length components - 1)
              in if length lastc = 0 then ([], [], False)
                 else if hd lastc \<noteq> CHR ''v'' then (modulePath, [], True)
                 else (case Atoi (tl lastc) of
                         None \<Rightarrow> (modulePath, [], True)
                       | Some _ \<Rightarrow>
                           (Join (take (length components - 1) components) ''/'', lastc, True)))"

text \<open>
  \<open>checkModulePathVer(modulePath, ver)\<close> has the named results
  \<open>(path, major, incompat, ok)\<close>, and a bare \<open>return\<close> returns them as they stand
  at that point. In the \<open>gopkg.in/\<close> branch only \<open>incompat\<close> has been assigned, so
  the bare returns give \<open>('', '', incompat, False)\<close>. In the other branch
  \<open>path, major, ok = splitModuleMajorVer(modulePath)\<close> assigns the three results, so
  the bare returns after it give the \<open>ok\<close> of the split.
\<close>

definition checkModulePathVer :: "string \<Rightarrow> string \<Rightarrow> string \<times> string \<times> bool \<times> bool" where
  "checkModulePathVer modulePath ver =
     (let incompat = (semver_Build ver = ''+incompatible'')
      in if HasPrefix modulePath ''gopkg.in/'' then
           (if incompat then ([], [], incompat, False)
            else let idx = LastIndexByte modulePath CHR ''.''
                 in if idx \<noteq> -1 \<and> HasPrefix ver (drop (nat (idx + 1)) modulePath)
                    then (modulePath, [], False, True)
                    else ([], [], incompat, False))
         else (case splitModuleMajorVer modulePath of
                 (path, major, ok) \<Rightarrow>
                   if \<not> ok then (path, major, incompat, ok)
                   else if major = [] \<and> \<not> HasPrefix ver ''v0.'' \<and> \<not> HasPrefix ver ''v1.''
                           \<and> \<not> incompat
                   then (path, major, incompat, ok)
                   else (path, major, incompat, True)))"

subsection \<open>The split as the specification words it\<close>

text \<open>
  The specification describes a major-version tag as \<open>v\<close> followed by a non-negative
  integer: \<open>isMajorTag\<close>. \<open>spec_splitModuleMajorVer\<close> is the split as the
  specification states it, to be compared with \<open>splitModuleMajorVer\<close>.
\<close>

definition isMajorTag :: "string \<Rightarrow> bool" where
  "isMajorTag cpt = (cpt \<noteq> [] \<and> hd cpt = CHR ''v'' \<and> tl cpt \<noteq> [] \<and> list_all isDigit (tl cpt))"

text \<open>\<open>v\<close> followed by an optional sign and a non-empty run of digits: the syntax
  that \<open>strconv.Atoi\<close> reads after the \<open>v\<close>.\<close>

definition isSignedTag :: "string \<Rightarrow> bool" where
  "isSignedTag cpt =
     (cpt \<noteq> [] \<and> hd cpt = CHR ''v'' \<and>
      (let t = tl cpt;
           ds = (if t \<noteq> [] \<and> (hd t = CHR ''-'' \<or> hd t = CHR ''+'') then tl t else t)
       in ds \<noteq> [] \<and> list_all isDigit ds))"

definition spec_splitModuleMajorVer :: "string \<Rightarrow> string \<times> string \<times> bool" where
  "spec_splitModuleMajorVer modulePath =
     (let comps = Split modulePath CHR ''/''
      in if list_ex (\<lambda>cpt. cpt = [] \<or> hd cpt = CHR ''.'') comps then ([], [], False)
         else if isMajorTag (last comps) then (Join (butlast comps) ''/'', last comps, True)
         else (modulePath, [], True))"

text \<open>The components the source takes for a tag: \<open>last[0] == 'v'\<close> and
  \<open>strconv.Atoi(last[1:])\<close> returns no error.\<close>

definition acceptsTag :: "string \<Rightarrow> bool" where
  "acceptsTag cpt = (cpt \<noteq> [] \<and> hd cpt = CHR ''v'' \<and> Atoi (tl cpt) \<noteq> None)"

text \<open>The \<open>ok\<close> result of \<open>checkModulePathVer\<close>.\<close>

definition result_ok :: "string \<times> string \<times> bool \<times> bool \<Rightarrow> bool" where
  "result_ok r = (case r of (path, major, incompat, ok) \<Rightarrow> ok)"

section \<open>The environment of the proxy\<close>

text \<open>
  The resolver and the assembler reach the file system, the \<open>git\<close> and \<open>zip\<close>
  programs and library functions outside the repository. These are the fields of the
  record \<open>env\<close>: each field gives the result of one kind of call, so every theorem
  about a function that takes an \<open>env\<close> holds whatever those calls return.
  A function that runs commands returns, with its result, the list of the calls it made
  (\<open>action\<close>), in order.
\<close>

text \<open>The errors the modelled functions return (the source builds them with
  \<open>errors.New\<close>; the text it appends from the underlying error is not modelled).\<close>

datatype error =
    ErrNotExist
  | FailedCommitDate
  | TimestampMismatch
  | FailedEncodeJson
  | FailedGitArchiveMod
  | FailedFirstPassStart
  | FailedFirstPassParse
  | FailedFirstPassWait
  | FailedTmpArchive
  | FailedSecondPass
  | FailedThirdPass
  | FailedGitArchiveLicense
  | FailedTmpLicense
  | FailedAppendLicense

text \<open>A tar stream as \<open>archive/tar\<close> reads it: the headers that \<open>Next\<close>
  returns, in order, each with its body (\<open>None\<close> when reading it fails); after the
  last header \<open>Next\<close> returns \<open>io.EOF\<close>, or another error when the stream is
  \<open>broken\<close>.\<close>

record tar_entry =
  Name :: string
  Typeflag :: char
  Body :: "string option"

record tar_stream =
  headers :: "tar_entry list"
  broken :: bool

definition TypeReg :: char where
  "TypeReg = CHR ''0''"

definition TypeDir :: char where
  "TypeDir = CHR ''5''"

text \<open>The result of \<open>cmd.Run()\<close> for the \<open>zip\<close> program: no error, an
  \<open>*exec.ExitError\<close> with its exit code, or another error.\<close>

datatype exit_status = ExitOk | ExitCode int | ExitOther

text \<open>\<open>RevInfo\<close> (the \<open>Origin\<close> field is never set by the assembler); times are
  Unix seconds.\<close>

record RevInfo =
  Version :: string
  Time :: int

text \<open>The external calls: \<open>git\<close> run in a directory with arguments, \<open>zip\<close> run
  in a directory with arguments, \<open>createUnnamedTmpFile(dir)\<close>, \<open>os.MkdirAll\<close>,
  \<open>unix.Access\<close> and \<open>unix.Linkat\<close> to a path.\<close>

datatype action =
    GitCmd string "string list"
  | ZipCmd string "string list"
  | CreateTmp string
  | MkdirAll string
  | AccessFile string
  | Linkat string

text \<open>What \<open>serveModGit\<close> returns to be streamed: bytes held in memory, the
  temporary archive file, or \<open>nil\<close>.\<close>

datatype reader = Bytes string | ArchiveTmp | NilReader

text \<open>
  \<^item> \<open>pathJoin a b\<close>: \<open>path.Join(a, b)\<close>;
  \<^item> \<open>Readlink p\<close>: \<open>os.Readlink(p)\<close>, \<open>None\<close> for an error;
  \<^item> \<open>IsPseudoVersion\<close>, \<open>PseudoVersionRev\<close>, \<open>PseudoVersionTime\<close>: the functions
    of \<open>golang.org/x/mod/module\<close> (the source drops their errors; on an error the
    time is the zero time);
  \<^item> \<open>gitRun dir args\<close>: \<open>getGitCmd(ctx, dir, args...).Run()\<close> returned no error;
  \<^item> \<open>runGitOutputShort dir args\<close>: the whole of \<open>runGitOutputShort\<close> (the start of
    the command, the reading of its output, \<open>cmd.Wait()\<close>): the output, \<open>None\<close> for
    an error;
  \<^item> \<open>getGitOutputCmd dir args\<close>: a call of \<open>getGitOutputCmd\<close> by \<open>serveModGit\<close> or
    \<open>collectGitArchiveOpts\<close> (each one a \<open>git archive\<close>): \<open>None\<close> when the pipe
    cannot be made or the command cannot be started, else its output read as a tar stream
    and whether \<open>cmd.Wait()\<close> returned no error;
  \<^item> \<open>parseUnixTime s\<close>: \<open>strconv.ParseInt(strings.TrimSpace(s), 10, 64)\<close>;
  \<^item> \<open>jsonMarshal\<close>: \<open>json.Marshal\<close> of a \<open>RevInfo\<close>;
  \<^item> \<open>createUnnamedTmpFile dir\<close>: the file could be created;
  \<^item> \<open>zipRun dir args\<close>: the result of running \<open>zip\<close>;
  \<^item> \<open>unixAccess p\<close>: \<open>unix.Access(p, unix.O_RDONLY)\<close> returned no error.
\<close>

record env =
  pathJoin :: "string \<Rightarrow> string \<Rightarrow> string"
  Readlink :: "string \<Rightarrow> string option"
  IsPseudoVersion :: "string \<Rightarrow> bool"
  PseudoVersionRev :: "string \<Rightarrow> string"
  PseudoVersionTime :: "string \<Rightarrow> int"
  gitRun :: "string \<Rightarrow> string list \<Rightarrow> bool"
  runGitOutputShort :: "string \<Rightarrow> string list \<Rightarrow> string option"
  getGitOutputCmd :: "string \<Rightarrow> string list \<Rightarrow> (tar_stream \<times> bool) option"
  parseUnixTime :: "string \<Rightarrow> int option"
  jsonMarshal :: "RevInfo \<Rightarrow> string option"
  createUnnamedTmpFile :: "string \<Rightarrow> bool"
  zipRun :: "string \<Rightarrow> string list \<Rightarrow> exit_status"
  unixAccess :: "string \<Rightarrow> bool"

text \<open>The zero \<open>time.Time\<close> (1 January of year 1, UTC) in Unix seconds.\<close>

definition zeroTime :: int where
  "zeroTime = - 62135596800"

text \<open>Two environments to run the functions in: one in which every external call
  fails, and one whose cache holds the repositories \<open>example.com\<close> and
  \<open>example.com/a\<close>.\<close>

definition offlineEnv :: env where
  "offlineEnv =
     \<lparr>pathJoin = (\<lambda>a b. a @ ''/'' @ b),
      Readlink = (\<lambda>p. None),
      IsPseudoVersion = (\<lambda>v. False),
      PseudoVersionRev = (\<lambda>v. []),
      PseudoVersionTime = (\<lambda>v. zeroTime),
      gitRun = (\<lambda>dir args. False),
      runGitOutputShort = (\<lambda>dir args. None),
      getGitOutputCmd = (\<lambda>dir args. None),
      parseUnixTime = (\<lambda>s. None),
      jsonMarshal = (\<lambda>info. None),
      createUnnamedTmpFile = (\<lambda>dir. False),
      zipRun = (\<lambda>dir args. ExitOther),
      unixAccess = (\<lambda>p. False)\<rparr>"

definition cachedEnv :: env where
  "cachedEnv = offlineEnv\<lparr>Readlink :=
      (\<lambda>p. if p = ''example.com/a/.vcs'' \<or> p = ''example.com/.vcs'' then Some ''.git'' else None)\<rparr>"

text \<open>A repository whose tags omit the leading \<open>v\<close>: only the refspec
  \<open>1.2.3\<close> resolves.\<close>

definition plainTagEnv :: env where
  "plainTagEnv = offlineEnv
     \<lparr>gitRun := (\<lambda>dir args. args = [''log'', ''-1'', ''--format=%H'', ''1.2.3'']),
      runGitOutputShort :=
        (\<lambda>dir args. if args = [''log'', ''-1'', ''--format=%ct'', ''1.2.3'']
                     then Some ''1700000000'' else None),
      parseUnixTime := (\<lambda>s. if s = ''1700000000'' then Some 1700000000 else None)\<rparr>"

text \<open>A repository in which every refspec resolves, to a commit of time
  \<open>1700000000\<close>; \<open>archive\<close> gives, for the arguments of a \<open>git archive\<close>, the
  entries of its output, and the command fails when there are none. The file system
  and \<open>zip\<close> work.\<close>

definition repoEnv :: "(string list \<Rightarrow> tar_entry list) \<Rightarrow> env" where
  "repoEnv archive = offlineEnv
     \<lparr>gitRun := (\<lambda>dir args. True),
      runGitOutputShort := (\<lambda>dir args. Some ''1700000000''),
      getGitOutputCmd :=
        (\<lambda>dir args. Some (\<lparr>headers = archive args, broken = False\<rparr>, archive args \<noteq> [])),
      parseUnixTime := (\<lambda>s. if s = ''1700000000'' then Some 1700000000 else None),
      createUnnamedTmpFile := (\<lambda>dir. True),
      zipRun := (\<lambda>dir args. ExitOk)\<rparr>"

text \<open>Trees for \<open>repoEnv\<close>: \<open>go.mod\<close> at the root only and not under \<open>v2/\<close>;
  a tree with a \<open>LICENSE\<close>; a tree without one.\<close>

definition regularFile :: "string \<Rightarrow> tar_entry" where
  "regularFile name = \<lparr>Name = name, Typeflag = TypeReg, Body = Some ''...''\<rparr>"

definition rootModule :: "string list \<Rightarrow> tar_entry list" where
  "rootModule args =
     (if args = [''archive'', ''--format=tar'', ''v2.0.0^{tree}:'', ''go.mod'']
      then [regularFile ''go.mod''] else [])"

definition licensedTree :: "string list \<Rightarrow> tar_entry list" where
  "licensedTree args = [regularFile ''LICENSE'', regularFile ''go.mod'']"

definition bareTree :: "string list \<Rightarrow> tar_entry list" where
  "bareTree args = [regularFile ''go.mod'']"

text \<open>A repository in which every refspec resolves, after which no \<open>git archive\<close>
  can be started (as when the server has no file descriptor left for the pipe).\<close>

definition stalledEnv :: env where
  "stalledEnv = (repoEnv (\<lambda>args. []))\<lparr>getGitOutputCmd := (\<lambda>dir args. None)\<rparr>"

lemma Split_not_Nil: "Split s sep \<noteq> []"
  by (induction s) (auto split: list.splits)

lemma Split_no_sep: "piece \<in> set (Split s sep) \<Longrightarrow> sep \<notin> set piece"
  by (induction s arbitrary: piece) (auto split: list.splits if_splits)

lemma Join_Cons: "es \<noteq> [] \<Longrightarrow> Join (e # es) sep = e @ sep @ Join es sep"
  by (cases es) auto

lemma Join_Split: "Join (Split s sep) [sep] = s"
proof (induction s)
  case Nil
  show ?case by simp
next
  case (Cons c cs)
  show ?case
  proof (cases "c = sep")
    case True
    with Cons show ?thesis by (simp add: Join_Cons Split_not_Nil)
  next
    case False
    obtain piece pieces where sp: "Split cs sep = piece # pieces"
      using Split_not_Nil by (cases "Split cs sep") auto
    with Cons False show ?thesis by (cases pieces) auto
  qed
qed

lemma Split_plain: "sep \<notin> set piece \<Longrightarrow> Split piece sep = [piece]"
  by (induction piece) auto

lemma Split_append_sep:
  "sep \<notin> set piece \<Longrightarrow> Split (piece @ sep # rest) sep = piece # Split rest sep"
  by (induction piece) auto

lemma Split_Join:
  "pieces \<noteq> [] \<Longrightarrow> \<forall>piece \<in> set pieces. sep \<notin> set piece \<Longrightarrow> Split (Join pieces [sep]) sep = pieces"
proof (induction pieces)
  case Nil
  then show ?case by simp
next
  case (Cons e es)
  show ?case
  proof (cases es)
    case Nil
    with Cons.prems show ?thesis by (simp add: Split_plain)
  next
    case (Cons f fs)
    with Cons.prems Cons.IH show ?thesis by (simp add: Split_append_sep)
  qed
qed

lemma LastIndexByte_absent: "(LastIndexByte s c = -1) = (c \<notin> set s)"
  and LastIndexByte_lower: "-1 \<le> LastIndexByte s c"
  by (induction s) (auto simp: Let_def)

lemma LastIndexByte_found:
  "c \<in> set s \<Longrightarrow> \<exists>pre suf. s = pre @ c # suf \<and> c \<notin> set suf \<and> LastIndexByte s c = int (length pre)"
proof (induction s)
  case Nil
  then show ?case by simp
next
  case (Cons x xs)
  show ?case
  proof (cases "c \<in> set xs")
    case True
    then obtain pre suf where "xs = pre @ c # suf" "c \<notin> set suf" "LastIndexByte xs c = int (length pre)"
      using Cons.IH by blast
    then have "x # xs = (x # pre) @ c # suf \<and> c \<notin> set suf \<and> LastIndexByte (x # xs) c = int (length (x # pre))"
      by (simp add: Let_def)
    then show ?thesis by blast
  next
    case False
    with Cons.prems have "x = c" by simp
    with False have "x # xs = [] @ c # xs \<and> c \<notin> set xs \<and> LastIndexByte (x # xs) c = int (length ([]::string))"
      by (simp add: Let_def LastIndexByte_absent)
    then show ?thesis by blast
  qed
qed

lemma decimal_snoc: "decimal (ds @ [c]) = decimal ds * 10 + (of_char c - 48)"
  by (simp add: decimal_def)

lemma isDigit_of_char: "isDigit c \<Longrightarrow> (48::int) \<le> of_char c"
proof -
  assume "isDigit c"
  then have "(48::nat) \<le> of_char c"
    by (simp add: isDigit_def less_eq_char_def)
  then have "int 48 \<le> int (of_char c)"
    by (simp only: of_nat_le_iff)
  then show ?thesis
    by (simp add: of_nat_of_char)
qed

lemma decimal_nonneg: "list_all isDigit ds \<Longrightarrow> 0 \<le> decimal ds"
proof (induction ds rule: rev_induct)
  case Nil
  show ?case by (simp add: decimal_def)
next
  case (snoc c ds)
  then have "0 \<le> decimal ds" and "(48::int) \<le> of_char c"
    by (simp_all add: isDigit_of_char)
  then show ?case by (simp add: decimal_snoc)
qed

section \<open>Local lookup\<close>

text \<open>
  \<open>checkModVcsLocal\<close>: the loop over \<open>sep\<close> and \<open>subPath\<close>, from the whole path
  down. \<open>sep\<close> decreases with every round: \<open>LastIndexByte\<close> of
  \<open>modulePath[:sep]\<close> lies below \<open>sep\<close>.
\<close>

function checkModVcsLocal_loop ::
  "env \<Rightarrow> string \<Rightarrow> nat \<Rightarrow> string \<Rightarrow> error + (string \<times> string \<times> string)" where
  "checkModVcsLocal_loop env modulePath sep subPath =
     (let parentPath = take sep modulePath;
          vcsdir = pathJoin env parentPath ''.vcs''
      in case Readlink env vcsdir of
           Some target \<Rightarrow> Inr (parentPath, subPath, target)
         | None \<Rightarrow>
             (let sep' = LastIndexByte parentPath CHR ''/''
              in if sep' = -1 then Inl ErrNotExist
                 else checkModVcsLocal_loop env modulePath (nat sep')
                        (drop (nat (sep' + 1)) modulePath)))"
  by pat_completeness auto
termination
proof (relation "measure (\<lambda>(env, modulePath, sep, subPath). sep)")
  show "wf (measure (\<lambda>(env, modulePath, sep, subPath). sep))" by simp
next
  fix env :: env and modulePath :: string and sep :: nat and subPath :: string
    and parentPath vcsdir sep'
  assume "parentPath = take sep modulePath" and "sep' = LastIndexByte parentPath CHR ''/''"
    and "sep' \<noteq> - 1"
  then have "CHR ''/'' \<in> set (take sep modulePath)"
    using LastIndexByte_absent by metis
  then obtain pre suf where split: "take sep modulePath = pre @ CHR ''/'' # suf"
    and idx: "LastIndexByte (take sep modulePath) CHR ''/'' = int (length pre)"
    using LastIndexByte_found by blast
  have "length (take sep modulePath) = length pre + Suc (length suf)"
    by (simp add: split)
  moreover have "length (take sep modulePath) \<le> sep" by simp
  ultimately have "length pre < sep" by linarith
  then have "nat (LastIndexByte (take sep modulePath) CHR ''/'') < sep"
    by (simp add: idx)
  then show "((env, modulePath, nat sep', drop (nat (sep' + 1)) modulePath), env, modulePath, sep, subPath)
      \<in> measure (\<lambda>(env, modulePath, sep, subPath). sep)"
    using \<open>parentPath = take sep modulePath\<close> \<open>sep' = LastIndexByte parentPath CHR ''/''\<close> by simp
qed

declare checkModVcsLocal_loop.simps [simp del]

definition checkModVcsLocal :: "env \<Rightarrow> string \<Rightarrow> error + (string \<times> string \<times> string)" where
  "checkModVcsLocal env modulePath = checkModVcsLocal_loop env modulePath (length modulePath) []"

text \<open>A position of the module path at which it may be cut: its end, or a slash.\<close>

definition cutAt :: "string \<Rightarrow> nat \<Rightarrow> bool" where
  "cutAt modulePath i = (i = length modulePath \<or> (i < length modulePath \<and> modulePath ! i = CHR ''/''))"

text \<open>\<open>boundaryPrefix P S M\<close>: \<open>P\<close> is \<open>M\<close> itself and \<open>S\<close> is empty, or \<open>M\<close> is
  \<open>P\<close>, a slash and \<open>S\<close>.\<close>

definition boundaryPrefix :: "string \<Rightarrow> string \<Rightarrow> string \<Rightarrow> bool" where
  "boundaryPrefix P S M = ((P = M \<and> S = []) \<or> M = P @ CHR ''/'' # S)"

text \<open>The probe at the cut \<open>i\<close>.\<close>

definition foundAt :: "env \<Rightarrow> string \<Rightarrow> nat \<Rightarrow> string option" where
  "foundAt env M i = Readlink env (pathJoin env (take i M) ''.vcs'')"

section \<open>The fast-path existence check\<close>

lemma CutPrefix_shorter:
  "HasPrefix refspec ''v'' \<Longrightarrow> length (fst (CutPrefix refspec ''v'')) < length refspec"
  by (cases refspec) (auto simp: CutPrefix_def HasPrefix_def)

text \<open>
  The loop at the label \<open>retry_refspec\<close> of \<open>cacheModGit\<close>: it runs
  \<open>git log -1 --format=%H refspec\<close> and, when that fails for a version that is no
  pseudo-version, without a subdirectory and with a refspec beginning with \<open>v\<close>, jumps
  back with the \<open>v\<close> cut off. It returns the commands run and whether the last one
  succeeded.
\<close>

function cacheModGit_retry_refspec ::
  "env \<Rightarrow> string \<Rightarrow> bool \<Rightarrow> string \<Rightarrow> string \<Rightarrow> action list \<times> bool" where
  "cacheModGit_retry_refspec env gitdir pseudoVer subPath refspec =
     (let args = [''log'', ''-1'', ''--format=%H'', refspec]
      in if gitRun env gitdir args then ([GitCmd gitdir args], True)
         else if \<not> pseudoVer \<and> subPath = [] \<and> HasPrefix refspec ''v''
              then (case cacheModGit_retry_refspec env gitdir pseudoVer subPath
                           (fst (CutPrefix refspec ''v'')) of
                      (acts, found) \<Rightarrow> (GitCmd gitdir args # acts, found))
              else ([GitCmd gitdir args], False))"
  by pat_completeness auto
termination
  by (relation "measure (\<lambda>(env, gitdir, pseudoVer, subPath, refspec). length refspec)")
     (auto simp: CutPrefix_shorter)

declare cacheModGit_retry_refspec.simps [simp del]

text \<open>
  \<open>cacheModGit\<close>, up to the point where it hands the repository to the clone workers:
  \<open>AlreadyCached\<close> is the early \<open>return\<close> (the tag or commit exists), \<open>Enqueue\<close>
  stands for the rest of the function (the pending map, the worker pool and the channel,
  which are not modelled).
\<close>

datatype cache_outcome = AlreadyCached | Enqueue

definition cacheModGit ::
  "env \<Rightarrow> string \<Rightarrow> string \<Rightarrow> string \<Rightarrow> string \<Rightarrow> action list \<times> cache_outcome" where
  "cacheModGit env modulePath subPath ver remote =
     (if remote = [] then
        (let canonical = semver_Canonical ver;
             pseudoVer = IsPseudoVersion env canonical;
             refspec = (if pseudoVer then PseudoVersionRev env canonical
                        else if subPath \<noteq> [] then Join [subPath, canonical] ''/''
                        else canonical);
             gitdir = pathJoin env modulePath ''.git''
         in case cacheModGit_retry_refspec env gitdir pseudoVer subPath refspec of
              (acts, found) \<Rightarrow> (acts, if found then AlreadyCached else Enqueue))
      else ([], Enqueue))"

section \<open>The archive assembler\<close>

subsection \<open>Reading one file from a tar stream\<close>

text \<open>\<open>getSingleFileFromTar(reader, name, ty)\<close>: the body of the first entry when its
  name and type are the ones asked for; \<open>None\<close> is the error return.\<close>

definition getSingleFileFromTar :: "tar_stream \<Rightarrow> string \<Rightarrow> char \<Rightarrow> string option" where
  "getSingleFileFromTar reader name ty =
     (case headers reader of
        [] \<Rightarrow> None
      | hdr # _ \<Rightarrow> if Name hdr = name \<and> Typeflag hdr = ty then Body hdr else None)"

text \<open>\<open>copySingleFileFromTar(reader, writer, name, ty)\<close>: whether it returned no
  error.\<close>

definition copySingleFileFromTar :: "tar_stream \<Rightarrow> string \<Rightarrow> char \<Rightarrow> bool" where
  "copySingleFileFromTar reader name ty =
     (case headers reader of
        [] \<Rightarrow> False
      | hdr # _ \<Rightarrow> Name hdr = name \<and> Typeflag hdr = ty \<and> Body hdr \<noteq> None)"

subsection \<open>The first pass of the archive construction\<close>

definition vendorExcludes :: "string list" where
  "vendorExcludes =
     ['':(exclude)vendor/*.go'', '':(exclude)vendor/*/**'', '':(exclude,top)**/vendor/*'']"

text \<open>The variables of the loop of \<open>collectGitArchiveOpts\<close>.\<close>

record survey =
  hasLicense :: bool
  hasVerLicense :: bool
  useVersionedDir :: bool
  filteredPaths :: "string list"

text \<open>One round of the loop, for the header \<open>hdr\<close>.\<close>

definition survey_step :: "string \<Rightarrow> survey \<Rightarrow> tar_entry \<Rightarrow> survey" where
  "survey_step vertag s hdr =
     (let verLicense = vertag @ ''/LICENSE''
      in if Typeflag hdr = TypeReg then
           (let s1 = (if Name hdr = ''LICENSE'' then s\<lparr>hasLicense := True\<rparr>
                      else if Name hdr = verLicense then s\<lparr>hasVerLicense := True\<rparr>
                      else s)
            in if HasSuffix (Name hdr) ''/go.mod'' then
                 (if TrimSuffix (Name hdr) ''/go.mod'' = vertag
                  then s1\<lparr>useVersionedDir := True\<rparr>
                  else s1\<lparr>filteredPaths := filteredPaths s1 @ [TrimSuffix (Name hdr) ''go.mod'']\<rparr>)
               else s1)
         else if Typeflag hdr = TypeDir then s
         else s\<lparr>filteredPaths := filteredPaths s @ [Name hdr]\<rparr>)"

text \<open>The exclusion that a recorded path becomes in the second pass (none when the
  module lives in the versioned directory and the path lies outside it).\<close>

definition excludeArgs :: "bool \<Rightarrow> string \<Rightarrow> string \<Rightarrow> string list" where
  "excludeArgs versioned vertag path =
     (if \<not> versioned then ['':(exclude,top)'' @ path]
      else (case CutPrefix path (vertag @ ''/'') of
              (subPath, contain) \<Rightarrow>
                if \<not> contain then [] else ['':(exclude,top)'' @ subPath]))"

text \<open>\<open>collectGitArchiveOpts(gitdir, prefix, treeish, vertag)\<close>: the arguments of the
  second pass and whether the archive will hold a \<open>LICENSE\<close>.\<close>

definition collectGitArchiveOpts ::
  "env \<Rightarrow> string \<Rightarrow> string \<Rightarrow> string \<Rightarrow> string
     \<Rightarrow> action list \<times> (error + (string list \<times> bool))" where
  "collectGitArchiveOpts env gitdir prefix treeish vertag =
     (let args = [''archive'', ''--format=tar'', treeish] @ vendorExcludes
      in case getGitOutputCmd env gitdir args of
           None \<Rightarrow> ([GitCmd gitdir args], Inl FailedFirstPassStart)
         | Some (out, waitOk) \<Rightarrow>
             (let s = foldl (survey_step vertag)
                        \<lparr>hasLicense = False, hasVerLicense = False, useVersionedDir = False,
                         filteredPaths = []\<rparr>
                        (headers out)
              in if broken out then ([GitCmd gitdir args], Inl FailedFirstPassParse)
                 else if \<not> waitOk then ([GitCmd gitdir args], Inl FailedFirstPassWait)
                 else
                   (let license = (if useVersionedDir s then hasVerLicense s else hasLicense s);
                        treeish2 = (if useVersionedDir s
                                    then (if \<not> HasSuffix treeish '':'' then treeish @ ''/''
                                          else treeish) @ vertag
                                    else treeish);
                        cmdArgs = [''archive'', ''--prefix'', prefix, ''--format=zip'', ''-0'', treeish2]
                                  @ vendorExcludes
                                  @ concat (map (excludeArgs (useVersionedDir s) vertag)
                                              (filteredPaths s))
                    in ([GitCmd gitdir args], Inr (cmdArgs, license)))))"

subsection \<open>Refspec resolution and timestamp verification\<close>

text \<open>The commit time of a refspec: \<open>runGitOutputShort\<close> of
  \<open>log -1 --format=%ct refspec\<close> and, when that returned no error, the integer parsed
  from its output; \<open>None\<close> when \<open>err != nil\<close> after the two steps.\<close>

definition commitTime :: "env \<Rightarrow> string \<Rightarrow> string \<Rightarrow> int option" where
  "commitTime env gitdir refspec =
     (case runGitOutputShort env gitdir [''log'', ''-1'', ''--format=%ct'', refspec] of
        None \<Rightarrow> None
      | Some unixTime \<Rightarrow> parseUnixTime env unixTime)"

text \<open>The loop at the label \<open>retry_refspec\<close> of \<open>serveModGit\<close>: the commands run,
  and the refspec that resolved with its commit time.\<close>

function serveModGit_retry_refspec ::
  "env \<Rightarrow> string \<Rightarrow> bool \<Rightarrow> string \<Rightarrow> string \<Rightarrow> action list \<times> (string \<times> int) option" where
  "serveModGit_retry_refspec env gitdir pseudoVer subPath refspec =
     (let act = GitCmd gitdir [''log'', ''-1'', ''--format=%ct'', refspec]
      in case commitTime env gitdir refspec of
           Some tm \<Rightarrow> ([act], Some (refspec, tm))
         | None \<Rightarrow>
             if \<not> pseudoVer \<and> subPath = [] \<and> HasPrefix refspec ''v''
             then (case serveModGit_retry_refspec env gitdir pseudoVer subPath
                          (fst (CutPrefix refspec ''v'')) of
                     (acts, r) \<Rightarrow> (act # acts, r))
             else ([act], None))"
  by pat_completeness auto
termination
  by (relation "measure (\<lambda>(env, gitdir, pseudoVer, subPath, refspec). length refspec)")
     (auto simp: CutPrefix_shorter)

declare serveModGit_retry_refspec.simps [simp del]

text \<open>The first part of \<open>serveModGit\<close>, to the timestamp check: the refspec that
  resolved and the commit time, or the error returned.\<close>

definition serveModGit_resolve ::
  "env \<Rightarrow> string \<Rightarrow> string \<Rightarrow> string \<Rightarrow> action list \<times> (error + (string \<times> int))" where
  "serveModGit_resolve env modulePath subPath verCanonical =
     (let pseudoVer = IsPseudoVersion env verCanonical;
          timestamp = (if pseudoVer then PseudoVersionTime env verCanonical else zeroTime);
          refspec = (if pseudoVer then PseudoVersionRev env verCanonical
                     else if subPath \<noteq> [] then Join [subPath, verCanonical] ''/''
                     else verCanonical);
          gitdir = pathJoin env modulePath ''.git''
      in case serveModGit_retry_refspec env gitdir pseudoVer subPath refspec of
           (logs, None) \<Rightarrow> (logs, Inl FailedCommitDate)
         | (logs, Some (resolved, tm)) \<Rightarrow>
             if timestamp \<noteq> zeroTime \<and> tm \<noteq> timestamp then (logs, Inl TimestampMismatch)
             else (logs, Inr (resolved, tm)))"

subsection \<open>The \<open>.mod\<close> artifact\<close>

text \<open>One extraction of \<open>go.mod\<close>: \<open>git archive\<close> cannot be started, or it ran and
  \<open>go.mod\<close> was read from its output and it ended without error, or it ran and that
  failed.\<close>

datatype extraction = NotStarted | Extracted string | NoGoMod

definition extractGoMod :: "env \<Rightarrow> string \<Rightarrow> string list \<Rightarrow> extraction" where
  "extractGoMod env gitdir cmdArgs =
     (case getGitOutputCmd env gitdir cmdArgs of
        None \<Rightarrow> NotStarted
      | Some (out, waitOk) \<Rightarrow>
          (case getSingleFileFromTar out ''go.mod'' TypeReg of
             None \<Rightarrow> NoGoMod
           | Some data \<Rightarrow> if waitOk then Extracted data else NoGoMod))"

text \<open>The loop at the label \<open>retry_mod\<close>; \<open>arg2\<close> is \<open>cmdArgs[2]\<close>, the only argument
  that changes. After a failed extraction the loop runs once more when \<open>cmdArgs[2]\<close>
  differs from \<open>treeish\<close>, with \<open>cmdArgs[2] = treeish\<close>.\<close>

function serveModGit_retry_mod ::
  "env \<Rightarrow> string \<Rightarrow> string \<Rightarrow> string \<Rightarrow> string \<Rightarrow> action list \<times> (error + reader)" where
  "serveModGit_retry_mod env gitdir treeish modFull arg2 =
     (let cmdArgs = [''archive'', ''--format=tar'', arg2, ''go.mod'']
      in case extractGoMod env gitdir cmdArgs of
           NotStarted \<Rightarrow> ([GitCmd gitdir cmdArgs], Inl FailedGitArchiveMod)
         | Extracted data \<Rightarrow> ([GitCmd gitdir cmdArgs], Inr (Bytes data))
         | NoGoMod \<Rightarrow>
             if arg2 \<noteq> treeish
             then (case serveModGit_retry_mod env gitdir treeish modFull treeish of
                     (acts, r) \<Rightarrow> (GitCmd gitdir cmdArgs # acts, r))
             else ([GitCmd gitdir cmdArgs], Inr (Bytes (''module '' @ modFull @ [CHR 0x0A]))))"
  by pat_completeness auto
termination
  by (relation "measure (\<lambda>(env, gitdir, treeish, modFull, arg2). if arg2 = treeish then 0 else 1)")
     auto

declare serveModGit_retry_mod.simps [simp del]

definition serveModGit_mod ::
  "env \<Rightarrow> string \<Rightarrow> string \<Rightarrow> string \<Rightarrow> string \<Rightarrow> string \<Rightarrow> action list \<times> (error + reader)" where
  "serveModGit_mod env gitdir refspec subPath verMajorTag modFull =
     (let treeish = refspec @ ''^{tree}:'' @ (if subPath \<noteq> [] then subPath @ ''/'' else []);
          arg2 = (if verMajorTag \<noteq> [] then treeish @ verMajorTag else treeish)
      in serveModGit_retry_mod env gitdir treeish modFull arg2)"

subsection \<open>The \<open>.zip\<close> artifact\<close>

text \<open>Passes one to three: the survey, the archive written to the temporary file, the
  directory entries deleted. The result is the \<open>hasLicense\<close> of the first pass.\<close>

definition serveModGit_passes ::
  "env \<Rightarrow> string \<Rightarrow> string \<Rightarrow> string \<Rightarrow> string \<Rightarrow> string \<Rightarrow> action list \<times> (error + bool)" where
  "serveModGit_passes env gitdir prefix refspec subPath verMajorTag =
     (case collectGitArchiveOpts env gitdir prefix (refspec @ ''^{tree}:'' @ subPath) verMajorTag of
        (first, Inl e) \<Rightarrow> (first, Inl e)
      | (first, Inr (cmdArgs, license)) \<Rightarrow>
          if \<not> createUnnamedTmpFile env ''.tmp''
          then (first @ [CreateTmp ''.tmp''], Inl FailedTmpArchive)
          else if \<not> gitRun env gitdir cmdArgs
          then (first @ [CreateTmp ''.tmp'', GitCmd gitdir cmdArgs], Inl FailedSecondPass)
          else
            (let zipArgs = [''-d'', ''.tmp/zip-fd3.zip'', ''*/''];
                 acts = first @ [CreateTmp ''.tmp'', GitCmd gitdir cmdArgs, ZipCmd [] zipArgs]
             in case zipRun env [] zipArgs of
                  ExitOk \<Rightarrow> (acts, Inr license)
                | ExitCode code \<Rightarrow>
                    if code \<noteq> 12 then (acts, Inl FailedThirdPass) else (acts, Inr license)
                | ExitOther \<Rightarrow> (acts, Inl FailedThirdPass)))"

text \<open>The end of the fourth pass: \<open>zip -g\<close> appends the cached \<open>LICENSE\<close>.\<close>

definition serveModGit_append :: "env \<Rightarrow> string \<Rightarrow> action list \<times> (error + reader)" where
  "serveModGit_append env prefix =
     (let zipArgs = [''-g'', ''../zip-fd3.zip'', pathJoin env prefix ''LICENSE'']
      in if zipRun env ''.tmp/licenses'' zipArgs \<noteq> ExitOk
         then ([ZipCmd ''.tmp/licenses'' zipArgs], Inl FailedAppendLicense)
         else ([ZipCmd ''.tmp/licenses'' zipArgs], Inr ArchiveTmp))"

text \<open>The fourth pass: \<open>LICENSE\<close> is taken from the root of the repository, through the
  cache under \<open>.tmp/licenses\<close>.\<close>

definition serveModGit_license ::
  "env \<Rightarrow> string \<Rightarrow> string \<Rightarrow> string \<Rightarrow> action list \<times> (error + reader)" where
  "serveModGit_license env gitdir prefix refspec =
     (let licArgs = [''archive'', ''--format=tar'', refspec @ ''^{tree}'', ''LICENSE'']
      in case getGitOutputCmd env gitdir licArgs of
           None \<Rightarrow> ([GitCmd gitdir licArgs], Inl FailedGitArchiveLicense)
         | Some (out, waitOk) \<Rightarrow>
             (let licDir = pathJoin env ''.tmp/licenses'' prefix;
                  licPath = pathJoin env licDir ''LICENSE'';
                  acts = [GitCmd gitdir licArgs, MkdirAll licDir, AccessFile licPath]
              in if \<not> unixAccess env licPath then
                   (if \<not> createUnnamedTmpFile env licDir
                    then (acts @ [CreateTmp licDir], Inl FailedTmpLicense)
                    else if \<not> copySingleFileFromTar out ''LICENSE'' TypeReg
                    then (acts @ [CreateTmp licDir], Inr ArchiveTmp)
                    else (case serveModGit_append env prefix of
                            (rest, r) \<Rightarrow> (acts @ [CreateTmp licDir, Linkat licPath] @ rest, r)))
                 else (case serveModGit_append env prefix of
                         (rest, r) \<Rightarrow> (acts @ rest, r))))"

definition serveModGit_zip ::
  "env \<Rightarrow> string \<Rightarrow> string \<Rightarrow> string \<Rightarrow> string \<Rightarrow> string \<Rightarrow> string
     \<Rightarrow> action list \<times> (error + reader)" where
  "serveModGit_zip env gitdir refspec subPath verMajorTag modFull ver =
     (let prefix = Join [modFull, ver] ''@'' @ ''/''
      in case serveModGit_passes env gitdir prefix refspec subPath verMajorTag of
           (acts, Inl e) \<Rightarrow> (acts, Inl e)
         | (acts, Inr license) \<Rightarrow>
             if license \<or> (subPath = [] \<and> verMajorTag = []) then (acts, Inr ArchiveTmp)
             else (case serveModGit_license env gitdir prefix refspec of
                     (rest, r) \<Rightarrow> (acts @ rest, r)))"

subsection \<open>\<open>serveModGit\<close>\<close>

text \<open>
  \<open>serveModGit(modulePath, verMajorTag, subPath, verCanonical, ext, incompat)\<close>: the
  external calls made, in order, and the reader or the error returned.
\<close>

definition serveModGit ::
  "env \<Rightarrow> string \<Rightarrow> string \<Rightarrow> string \<Rightarrow> string \<Rightarrow> string \<Rightarrow> bool
     \<Rightarrow> action list \<times> (error + reader)" where
  "serveModGit env modulePath verMajorTag subPath verCanonical ext incompat =
     (case serveModGit_resolve env modulePath subPath verCanonical of
        (logs, Inl e) \<Rightarrow> (logs, Inl e)
      | (logs, Inr (refspec, tm)) \<Rightarrow>
          (let gitdir = pathJoin env modulePath ''.git'';
               ver = (if incompat then verCanonical @ ''+incompatible'' else verCanonical);
               modFull1 = (if subPath \<noteq> [] then Join [modulePath, subPath] ''/'' else modulePath);
               modFull = (if verMajorTag \<noteq> [] then Join [modFull1, verMajorTag] ''/''
                          else modFull1)
           in if ext = ''.info'' then
                (case jsonMarshal env \<lparr>Version = ver, Time = tm\<rparr> of
                   None \<Rightarrow> (logs, Inl FailedEncodeJson)
                 | Some data \<Rightarrow> (logs, Inr (Bytes data)))
              else if ext = ''.mod'' then
                (case serveModGit_mod env gitdir refspec subPath verMajorTag modFull of
                   (acts, r) \<Rightarrow> (logs @ acts, r))
              else if ext = ''.zip'' then
                (case serveModGit_zip env gitdir refspec subPath verMajorTag modFull ver of
                   (acts, r) \<Rightarrow> (logs @ acts, r))
              else (logs, Inr NilReader)))"

text \<open>The refspecs of the \<open>git log\<close> commands among the calls made.\<close>

fun logRefspecs :: "action list \<Rightarrow> string list" where
  "logRefspecs [] = []"
| "logRefspecs (GitCmd dir [a, b, c, refspec] # acts) =
     (if a = ''log'' then refspec # logRefspecs acts else logRefspecs acts)"
| "logRefspecs (act # acts) = logRefspecs acts"

text \<open>When the fourth pass is skipped, as the specification words it: the first pass
  found no \<open>LICENSE\<close> and the request has neither a subdirectory nor a major tag.\<close>

definition spec_skipsLicensePass :: "bool \<Rightarrow> string \<Rightarrow> string \<Rightarrow> bool" where
  "spec_skipsLicensePass license subPath verMajorTag =
     (\<not> license \<and> subPath = [] \<and> verMajorTag = [])"

section \<open>The major-version split and the version check: properties\<close>

lemma isDigit_not_sign: "isDigit c \<Longrightarrow> c \<noteq> CHR ''-'' \<and> c \<noteq> CHR ''+''"
  by (auto simp: isDigit_def less_eq_char_def)

lemma Atoi_digits:
  assumes "ds \<noteq> []" "list_all isDigit ds" "decimal ds < 2 ^ 63"
  shows "Atoi ds = Some (decimal ds)"
proof -
  from assms(1,2) have "isDigit (hd ds)" by (cases ds) auto
  then have "hd ds \<noteq> CHR ''-''" "hd ds \<noteq> CHR ''+''" using isDigit_not_sign by auto
  moreover have "0 \<le> decimal ds" using assms(2) by (rule decimal_nonneg)
  ultimately show ?thesis using assms by (simp add: Atoi_def Let_def)
qed

lemma Atoi_Some_signed:
  "Atoi t \<noteq> None \<Longrightarrow>
     (let ds = (if t \<noteq> [] \<and> (hd t = CHR ''-'' \<or> hd t = CHR ''+'') then tl t else t)
      in ds \<noteq> [] \<and> list_all isDigit ds)"
  by (auto simp: Atoi_def Let_def split: if_splits)

lemma acceptsTag_isSignedTag: "acceptsTag cpt \<Longrightarrow> isSignedTag cpt"
  using Atoi_Some_signed [of "tl cpt"] by (simp add: acceptsTag_def isSignedTag_def Let_def)

lemma isMajorTag_acceptsTag:
  "isMajorTag cpt \<Longrightarrow> decimal (tl cpt) < 2 ^ 63 \<Longrightarrow> acceptsTag cpt"
  by (simp add: isMajorTag_def acceptsTag_def Atoi_digits)

text \<open>The function in terms of the components, the last one and the others.\<close>

lemma splitModuleMajorVer_eq:
  "splitModuleMajorVer modulePath =
     (let comps = Split modulePath CHR ''/''
      in if \<exists>cpt \<in> set comps. cpt = [] \<or> hd cpt = CHR ''.'' then ([], [], False)
         else if 2 \<le> length comps \<and> acceptsTag (last comps)
              then (Join (butlast comps) ''/'', last comps, True)
              else (modulePath, [], True))"
proof -
  have ne: "Split modulePath CHR ''/'' \<noteq> []" by (rule Split_not_Nil)
  then have l: "Split modulePath CHR ''/'' ! (length (Split modulePath CHR ''/'') - 1) = last (Split modulePath CHR ''/'')"
    by (simp add: last_conv_nth)
  have b: "take (length (Split modulePath CHR ''/'') - 1) (Split modulePath CHR ''/'') = butlast (Split modulePath CHR ''/'')"
    by (simp add: butlast_conv_take)
  have la: "last (Split modulePath CHR ''/'') \<in> set (Split modulePath CHR ''/'')"
    using ne by simp
  show ?thesis
    unfolding splitModuleMajorVer_def Let_def l b acceptsTag_def
    using la by (auto split: option.splits)
qed

text \<open>
  Claim C1, as the code has it. With the module path split at \<open>/\<close> into its components:
  a path with an empty component or a component that begins with \<open>.\<close> is rejected;
  a valid path of at least two components whose last component is \<open>v\<close> followed by
  decimal digits (of a value below \<open>2^63\<close>) is split into the path without that component
  and that component as the major-version tag; a valid path of a single component, or
  whose last component is not \<open>v\<close> followed by an optionally signed run of digits, is
  returned whole with an empty tag. (The statement says nothing about a signed or an
  out-of-range number after the \<open>v\<close>.)
\<close>

theorem splitModuleMajorVer_amended:
  assumes "comps = Split modulePath CHR ''/''"
  shows "((\<exists>cpt \<in> set comps. cpt = [] \<or> hd cpt = CHR ''.'') \<longrightarrow>
            splitModuleMajorVer modulePath = ([], [], False))
       \<and> ((\<forall>cpt \<in> set comps. cpt \<noteq> [] \<and> hd cpt \<noteq> CHR ''.'') \<and> 2 \<le> length comps
            \<and> isMajorTag (last comps) \<and> decimal (tl (last comps)) < 2 ^ 63 \<longrightarrow>
            splitModuleMajorVer modulePath = (Join (butlast comps) ''/'', last comps, True))
       \<and> ((\<forall>cpt \<in> set comps. cpt \<noteq> [] \<and> hd cpt \<noteq> CHR ''.'')
            \<and> (length comps < 2 \<or> \<not> isSignedTag (last comps)) \<longrightarrow>
            splitModuleMajorVer modulePath = (modulePath, [], True))"
  unfolding splitModuleMajorVer_eq Let_def assms
  using isMajorTag_acceptsTag acceptsTag_isSignedTag by auto

text \<open>The definitions that evaluate the split and the version check at concrete
  strings.\<close>

lemmas ev = HasPrefix_def isMajorTag_def isSignedTag_def isDigit_def less_eq_char_def less_char_def Let_def decimal_def

text \<open>The three cases of the theorem at concrete paths.\<close>

theorem splitModuleMajorVer_amended_witness:
  "splitModuleMajorVer ''a//b'' = ([], [], False)
   \<and> splitModuleMajorVer ''a/b/v2'' = (''a/b'', ''v2'', True)
   \<and> splitModuleMajorVer ''v2'' = (''v2'', [], True)
   \<and> splitModuleMajorVer ''a/vendor'' = (''a/vendor'', [], True)"
  using splitModuleMajorVer_amended [of "Split ''a//b'' CHR ''/''" "''a//b''"]
    splitModuleMajorVer_amended [of "Split ''a/b/v2'' CHR ''/''" "''a/b/v2''"]
    splitModuleMajorVer_amended [of "Split ''v2'' CHR ''/''" "''v2''"]
    splitModuleMajorVer_amended [of "Split ''a/vendor'' CHR ''/''" "''a/vendor''"]
  by (simp add: ev)

text \<open>
  Claim C1 as stated fails at the one-component path \<open>v2\<close>: its last component is
  \<open>v\<close> followed by a non-negative integer, so the claim returns the empty path and the
  tag \<open>v2\<close>; the source returns paths of fewer than two components whole
  (\<open>len(components) < 2\<close>).
\<close>

theorem splitModuleMajorVer_single_component_counterexample:
  "spec_splitModuleMajorVer ''v2'' = ([], ''v2'', True)
   \<and> splitModuleMajorVer ''v2'' = (''v2'', [], True)
   \<and> splitModuleMajorVer ''v2'' \<noteq> spec_splitModuleMajorVer ''v2''"
  by (simp add: spec_splitModuleMajorVer_def splitModuleMajorVer_def ev)

text \<open>
  Outside \<open>gopkg.in/\<close> the result is the result of the split with the incompatible
  flag added: the version test ends in a bare \<open>return\<close>, which returns the \<open>ok\<close>
  that the split assigned, and that is \<open>true\<close> once \<open>if !ok\<close> has been passed.
\<close>

lemma checkModulePathVer_plain:
  assumes "\<not> HasPrefix modulePath ''gopkg.in/''"
  shows "checkModulePathVer modulePath ver
           = (case splitModuleMajorVer modulePath of
                (path, major, ok) \<Rightarrow> (path, major, semver_Build ver = ''+incompatible'', ok))"
  using assms by (auto simp: checkModulePathVer_def Let_def split: prod.splits)

lemmas ev2 = ev splitModuleMajorVer_def Atoi_def
  semver_Build_def parse_def parse_tail_def parseInt_def parseBuild_def parsePrerelease_def isIdentChar_def isBadNum_def

text \<open>
  Claim C2 says that, for a module path outside \<open>gopkg.in/\<close> that the split
  accepts, \<open>checkModulePathVer\<close> accepts a version if and only if the split found a
  tag, or the version begins with \<open>v0.\<close> or \<open>v1.\<close>, or its build metadata is
  \<open>+incompatible\<close>. The source tests exactly this condition, but the rejecting branch
  is a bare \<open>return\<close> that returns \<open>ok = true\<close>: the path \<open>example.com/a\<close> has no
  tag, the version \<open>v2.3.4\<close> meets none of the three conditions, and the pair is
  accepted.
\<close>

theorem checkModulePathVer_version_test_dead:
  "splitModuleMajorVer ''example.com/a'' = (''example.com/a'', [], True)
   \<and> HasPrefix ''example.com/a'' ''gopkg.in/'' = False
   \<and> HasPrefix ''v2.3.4'' ''v0.'' = False
   \<and> HasPrefix ''v2.3.4'' ''v1.'' = False
   \<and> semver_Build ''v2.3.4'' = []
   \<and> checkModulePathVer ''example.com/a'' ''v2.3.4'' = (''example.com/a'', [], False, True)"
  by (simp add: checkModulePathVer_def ev2)

lemma gopkg_has_dot: "HasPrefix modulePath ''gopkg.in/'' \<Longrightarrow> CHR ''.'' \<in> set modulePath"
proof -
  assume "HasPrefix modulePath ''gopkg.in/''"
  then have t: "take (length ''gopkg.in/'') modulePath = ''gopkg.in/''"
    unfolding HasPrefix_def by (rule conjunct2)
  have "CHR ''.'' \<in> set ''gopkg.in/''" by simp
  then have "CHR ''.'' \<in> set (take (length ''gopkg.in/'') modulePath)" by (simp only: t)
  then show ?thesis by (rule in_set_takeD)
qed

lemma drop_after_last:
  "c \<in> set s \<Longrightarrow> \<exists>pre. s = pre @ c # drop (nat (LastIndexByte s c + 1)) s
      \<and> c \<notin> set (drop (nat (LastIndexByte s c + 1)) s)"
proof -
  assume "c \<in> set s"
  then obtain pre suf where p: "s = pre @ c # suf" "c \<notin> set suf" "LastIndexByte s c = int (length pre)"
    using LastIndexByte_found by blast
  then have "nat (LastIndexByte s c + 1) = Suc (length pre)" by simp
  then have "drop (nat (LastIndexByte s c + 1)) s = suf" using p(1) by simp
  with p show ?thesis by auto
qed

text \<open>
  Claim C3. For a module path that begins with \<open>gopkg.in/\<close>, \<open>checkModulePathVer\<close>
  accepts a version only if the version begins with what follows the last \<open>.\<close> of the
  module path, and it rejects every version whose build metadata is \<open>+incompatible\<close>.
\<close>

theorem checkModulePathVer_gopkg:
  assumes "HasPrefix modulePath ''gopkg.in/''"
  shows "(result_ok (checkModulePathVer modulePath ver) \<longrightarrow>
            (\<exists>pre suf. modulePath = pre @ CHR ''.'' # suf \<and> CHR ''.'' \<notin> set suf \<and> HasPrefix ver suf))
       \<and> (semver_Build ver = ''+incompatible'' \<longrightarrow> \<not> result_ok (checkModulePathVer modulePath ver))"
proof -
  have "CHR ''.'' \<in> set modulePath" using assms by (rule gopkg_has_dot)
  then obtain pre where
    "modulePath = pre @ CHR ''.'' # drop (nat (LastIndexByte modulePath CHR ''.'' + 1)) modulePath"
    "CHR ''.'' \<notin> set (drop (nat (LastIndexByte modulePath CHR ''.'' + 1)) modulePath)"
    using drop_after_last by blast
  then show ?thesis
    using assms by (auto simp: checkModulePathVer_def result_ok_def Let_def split: if_splits)
qed

theorem checkModulePathVer_gopkg_witness:
  "result_ok (checkModulePathVer ''gopkg.in/yaml.v2'' ''v2.4.0'')
   \<and> (\<exists>pre suf. ''gopkg.in/yaml.v2'' = pre @ CHR ''.'' # suf \<and> CHR ''.'' \<notin> set suf
         \<and> HasPrefix ''v2.4.0'' suf)
   \<and> \<not> result_ok (checkModulePathVer ''gopkg.in/yaml.v2'' ''v2.4.0+incompatible'')"
proof -
  have h: "HasPrefix ''gopkg.in/yaml.v2'' ''gopkg.in/''" by (simp add: HasPrefix_def)
  have ok: "result_ok (checkModulePathVer ''gopkg.in/yaml.v2'' ''v2.4.0'')"
    by (simp add: checkModulePathVer_def result_ok_def ev2)
  have b: "semver_Build ''v2.4.0+incompatible'' = ''+incompatible''"
    by (simp add: ev2)
  show ?thesis
    using checkModulePathVer_gopkg [OF h, of "''v2.4.0''"]
      checkModulePathVer_gopkg [OF h, of "''v2.4.0+incompatible''"] ok b
    by blast
qed

text \<open>
  Claim C10. For a module path that begins with \<open>gopkg.in/\<close> and that
  \<open>checkModulePathVer\<close> accepts, the returned path is the module path unchanged, the
  returned major-version tag is empty and the returned incompatible flag is false.
\<close>

theorem checkModulePathVer_gopkg_result:
  assumes "HasPrefix modulePath ''gopkg.in/''"
    and "result_ok (checkModulePathVer modulePath ver)"
  shows "checkModulePathVer modulePath ver = (modulePath, [], False, True)"
  using assms by (auto simp: checkModulePathVer_def result_ok_def Let_def split: if_splits)

theorem checkModulePathVer_gopkg_result_witness:
  "HasPrefix ''gopkg.in/yaml.v2'' ''gopkg.in/''
   \<and> result_ok (checkModulePathVer ''gopkg.in/yaml.v2'' ''v2.4.0'')
   \<and> checkModulePathVer ''gopkg.in/yaml.v2'' ''v2.4.0'' = (''gopkg.in/yaml.v2'', [], False, True)"
proof -
  have h: "HasPrefix ''gopkg.in/yaml.v2'' ''gopkg.in/''" by (simp add: HasPrefix_def)
  have ok: "result_ok (checkModulePathVer ''gopkg.in/yaml.v2'' ''v2.4.0'')"
    by (simp add: checkModulePathVer_def result_ok_def ev2)
  show ?thesis
    using checkModulePathVer_gopkg_result [OF h ok] h ok by simp
qed

text \<open>
  Claim C8 as stated fails: the path \<open>example.com/a/v2\<close> with the version
  \<open>v2.0.0+incompatible\<close> is accepted with the incompatible flag set and the major tag
  \<open>v2\<close>.
\<close>

theorem checkModulePathVer_incompatible_with_tag_counterexample:
  "semver_Build ''v2.0.0+incompatible'' = ''+incompatible''
   \<and> checkModulePathVer ''example.com/a/v2'' ''v2.0.0+incompatible''
       = (''example.com/a'', ''v2'', True, True)"
  by (simp add: checkModulePathVer_def ev2)

text \<open>
  Claim C8, as the code has it. \<open>checkModulePathVer\<close> accepts a path and a version
  with the incompatible flag set exactly when the path does not begin with
  \<open>gopkg.in/\<close>, the build metadata of the version is \<open>+incompatible\<close> and the
  major-version split accepts the path; the returned path and tag are then those of the
  split. So the flag does not exclude a tag: with such a version, a path of at least two
  valid components whose last is \<open>v\<close> followed by decimal digits (of a value below
  \<open>2^63\<close>) is accepted with that component as the tag and the flag set, and a valid path
  of a single component, or whose last component is not \<open>v\<close> followed by an optionally
  signed run of digits, is accepted with an empty tag and the flag set.
\<close>

theorem checkModulePathVer_incompatible_amended:
  assumes "comps = Split modulePath CHR ''/''"
  shows "((checkModulePathVer modulePath ver = (path, major, True, True))
            = (\<not> HasPrefix modulePath ''gopkg.in/'' \<and> semver_Build ver = ''+incompatible''
               \<and> splitModuleMajorVer modulePath = (path, major, True)))
       \<and> (\<not> HasPrefix modulePath ''gopkg.in/'' \<and> semver_Build ver = ''+incompatible''
            \<and> (\<forall>cpt \<in> set comps. cpt \<noteq> [] \<and> hd cpt \<noteq> CHR ''.'') \<and> 2 \<le> length comps
            \<and> isMajorTag (last comps) \<and> decimal (tl (last comps)) < 2 ^ 63 \<longrightarrow>
            checkModulePathVer modulePath ver = (Join (butlast comps) ''/'', last comps, True, True)
            \<and> last comps \<noteq> [])
       \<and> (\<not> HasPrefix modulePath ''gopkg.in/'' \<and> semver_Build ver = ''+incompatible''
            \<and> (\<forall>cpt \<in> set comps. cpt \<noteq> [] \<and> hd cpt \<noteq> CHR ''.'')
            \<and> (length comps < 2 \<or> \<not> isSignedTag (last comps)) \<longrightarrow>
            checkModulePathVer modulePath ver = (modulePath, [], True, True))"
proof -
  have gopkg: "checkModulePathVer modulePath ver \<noteq> (path, major, True, True)"
    if "HasPrefix modulePath ''gopkg.in/''"
    using that by (auto simp: checkModulePathVer_def Let_def split: if_splits)
  have plain: "(checkModulePathVer modulePath ver = (path, major, True, True))
            = (semver_Build ver = ''+incompatible''
               \<and> splitModuleMajorVer modulePath = (path, major, True))"
    if "\<not> HasPrefix modulePath ''gopkg.in/''"
    unfolding checkModulePathVer_plain [OF that]
    by (cases "splitModuleMajorVer modulePath") auto
  have first: "(checkModulePathVer modulePath ver = (path, major, True, True))
            = (\<not> HasPrefix modulePath ''gopkg.in/'' \<and> semver_Build ver = ''+incompatible''
               \<and> splitModuleMajorVer modulePath = (path, major, True))"
    using gopkg plain by blast
  have tagged: "checkModulePathVer modulePath ver
                  = (Join (butlast comps) ''/'', last comps, True, True) \<and> last comps \<noteq> []"
    if "\<not> HasPrefix modulePath ''gopkg.in/''" "semver_Build ver = ''+incompatible''"
      "\<forall>cpt \<in> set comps. cpt \<noteq> [] \<and> hd cpt \<noteq> CHR ''.''" "2 \<le> length comps"
      "isMajorTag (last comps)" "decimal (tl (last comps)) < 2 ^ 63"
  proof -
    have "acceptsTag (last comps)" using that(5,6) by (rule isMajorTag_acceptsTag)
    then have "splitModuleMajorVer modulePath = (Join (butlast comps) ''/'', last comps, True)"
      using that(3,4) unfolding splitModuleMajorVer_eq Let_def assms by auto
    moreover have "last comps \<noteq> []" using that(5) by (simp add: isMajorTag_def)
    ultimately show ?thesis
      using that(2) by (simp add: checkModulePathVer_plain [OF that(1)])
  qed
  have untagged: "checkModulePathVer modulePath ver = (modulePath, [], True, True)"
    if "\<not> HasPrefix modulePath ''gopkg.in/''" "semver_Build ver = ''+incompatible''"
      "\<forall>cpt \<in> set comps. cpt \<noteq> [] \<and> hd cpt \<noteq> CHR ''.''"
      "length comps < 2 \<or> \<not> isSignedTag (last comps)"
  proof -
    have "length comps < 2 \<or> \<not> acceptsTag (last comps)"
      using that(4) acceptsTag_isSignedTag by blast
    then have "splitModuleMajorVer modulePath = (modulePath, [], True)"
      using that(3) unfolding splitModuleMajorVer_eq Let_def assms by auto
    then show ?thesis
      using that(2) by (simp add: checkModulePathVer_plain [OF that(1)])
  qed
  show ?thesis using first tagged untagged by blast
qed

text \<open>The theorem at a path with a tag and at a path without one.\<close>

theorem checkModulePathVer_incompatible_amended_witness:
  "checkModulePathVer ''example.com/a/b/v3'' ''v3.1.0+incompatible''
     = (''example.com/a/b'', ''v3'', True, True)
   \<and> checkModulePathVer ''example.com/a'' ''v2.0.0+incompatible''
     = (''example.com/a'', [], True, True)
   \<and> splitModuleMajorVer ''example.com/a'' = (''example.com/a'', [], True)"
proof -
  have b: "semver_Build ''v3.1.0+incompatible'' = ''+incompatible''"
    "semver_Build ''v2.0.0+incompatible'' = ''+incompatible''"
    by (simp_all add: ev2)
  show ?thesis
    using checkModulePathVer_incompatible_amended
            [of "Split ''example.com/a/b/v3'' CHR ''/''" "''example.com/a/b/v3''"
                "''v3.1.0+incompatible''" "''example.com/a/b''" "''v3''"]
      checkModulePathVer_incompatible_amended
            [of "Split ''example.com/a'' CHR ''/''" "''example.com/a''"
                "''v2.0.0+incompatible''" "''example.com/a''" "[]"]
    by (auto simp: b ev)
qed

text \<open>
  Claim C9 as stated fails at \<open>example.com/a/v2/v3\<close>: the split returns the path
  \<open>example.com/a/v2\<close>, and the split of that path returns \<open>example.com/a\<close> with
  the tag \<open>v2\<close>, not the same path with an empty tag.
\<close>

theorem splitModuleMajorVer_twice_counterexample:
  "splitModuleMajorVer ''example.com/a/v2/v3'' = (''example.com/a/v2'', ''v3'', True)
   \<and> splitModuleMajorVer ''example.com/a/v2'' = (''example.com/a'', ''v2'', True)
   \<and> splitModuleMajorVer ''example.com/a/v2'' \<noteq> (''example.com/a/v2'', [], True)"
  by (simp add: ev2)

text \<open>
  Claim C9, as the code has it. When the split accepts a module path, it also accepts
  the path it returned. When the first application found no tag, the second returns the
  same path with an empty tag. When the first application found a tag, the components of
  the returned path are those of the module path without the last. The second application
  returns the same path with an empty tag whenever the returned path has a single
  component or its last component is not \<open>v\<close> followed by an optionally signed run of
  digits, and it strips one more component whenever the returned path has at least two
  components and its last one is \<open>v\<close> followed by decimal digits (of a value below
  \<open>2^63\<close>). (The statement says nothing about a signed or an out-of-range number
  after the \<open>v\<close>.)
\<close>

theorem splitModuleMajorVer_twice_amended:
  assumes "splitModuleMajorVer modulePath = (path, major, True)"
    and "comps = Split path CHR ''/''"
  shows "(\<exists>path2 major2. splitModuleMajorVer path = (path2, major2, True))
       \<and> (major = [] \<longrightarrow> splitModuleMajorVer path = (path, [], True))
       \<and> (major \<noteq> [] \<longrightarrow> comps = butlast (Split modulePath CHR ''/''))
       \<and> (length comps < 2 \<or> \<not> isSignedTag (last comps) \<longrightarrow>
            splitModuleMajorVer path = (path, [], True))
       \<and> (2 \<le> length comps \<and> isMajorTag (last comps) \<and> decimal (tl (last comps)) < 2 ^ 63 \<longrightarrow>
            splitModuleMajorVer path = (Join (butlast comps) ''/'', last comps, True)
            \<and> last comps \<noteq> [])"
proof -
  let ?cs = "Split modulePath CHR ''/''"
  have ne: "?cs \<noteq> []" by (rule Split_not_Nil)
  have valid: "\<forall>cpt \<in> set ?cs. cpt \<noteq> [] \<and> hd cpt \<noteq> CHR ''.''"
    using assms(1) unfolding splitModuleMajorVer_eq Let_def by (auto split: if_splits)
  have sp: "Split path CHR ''/'' = (if major = [] then ?cs else butlast ?cs)
            \<and> (major = [] \<longrightarrow> path = modulePath)"
  proof (cases "2 \<le> length ?cs \<and> acceptsTag (last ?cs)")
    case True
    then have pm: "path = Join (butlast ?cs) ''/''" "major = last ?cs"
      using assms(1) valid unfolding splitModuleMajorVer_eq Let_def by (auto split: if_splits)
    have "butlast ?cs \<noteq> []" using True by (cases ?cs rule: rev_cases) auto
    moreover have "\<forall>piece \<in> set (butlast ?cs). CHR ''/'' \<notin> set piece"
      using Split_no_sep in_set_butlastD by metis
    ultimately have "Split path CHR ''/'' = butlast ?cs"
      unfolding pm using Split_Join [of "butlast ?cs" "CHR ''/''"] by simp
    moreover have "major \<noteq> []" using pm(2) valid ne by simp
    ultimately show ?thesis by simp
  next
    case False
    then have "path = modulePath" "major = []"
      using assms(1) valid unfolding splitModuleMajorVer_eq Let_def by (auto split: if_splits)
    then show ?thesis by simp
  qed
  have valid2: "\<forall>cpt \<in> set comps. cpt \<noteq> [] \<and> hd cpt \<noteq> CHR ''.''"
    using sp valid assms(2) by (auto dest: in_set_butlastD)
  have c1: "\<exists>path2 major2. splitModuleMajorVer path = (path2, major2, True)"
    using valid2 unfolding splitModuleMajorVer_eq [of path] Let_def assms(2) by auto
  have c2: "major = [] \<longrightarrow> splitModuleMajorVer path = (path, [], True)"
    using sp assms(1) by auto
  have c3: "major \<noteq> [] \<longrightarrow> comps = butlast ?cs" using sp assms(2) by simp
  have c4: "splitModuleMajorVer path = (path, [], True)"
    if "length comps < 2 \<or> \<not> isSignedTag (last comps)"
  proof -
    have "length comps < 2 \<or> \<not> acceptsTag (last comps)"
      using that acceptsTag_isSignedTag by blast
    then show ?thesis
      using valid2 unfolding splitModuleMajorVer_eq [of path] Let_def assms(2) by auto
  qed
  have c5: "splitModuleMajorVer path = (Join (butlast comps) ''/'', last comps, True)
            \<and> last comps \<noteq> []"
    if "2 \<le> length comps" "isMajorTag (last comps)" "decimal (tl (last comps)) < 2 ^ 63"
  proof -
    have "acceptsTag (last comps)" using that(2,3) by (rule isMajorTag_acceptsTag)
    moreover have "last comps \<noteq> []" using that(2) by (simp add: isMajorTag_def)
    ultimately show ?thesis
      using valid2 that(1) unfolding splitModuleMajorVer_eq [of path] Let_def assms(2) by auto
  qed
  show ?thesis using c1 c2 c3 c4 c5 by blast
qed

text \<open>The theorem at \<open>example.com/a/v2\<close>, where a second application changes nothing,
  and at \<open>example.com/a/v2/v3\<close>, where it strips \<open>v2\<close> too.\<close>

theorem splitModuleMajorVer_twice_amended_witness:
  "splitModuleMajorVer ''example.com/a'' = (''example.com/a'', [], True)
   \<and> Split ''example.com/a'' CHR ''/'' = butlast (Split ''example.com/a/v2'' CHR ''/'')
   \<and> splitModuleMajorVer ''example.com/a/v2'' = (''example.com/a'', ''v2'', True)"
proof -
  have a: "splitModuleMajorVer ''example.com/a/v2'' = (''example.com/a'', ''v2'', True)"
    by (simp add: ev2)
  have b: "splitModuleMajorVer ''example.com/a/v2/v3'' = (''example.com/a/v2'', ''v3'', True)"
    by (simp add: ev2)
  show ?thesis
    using splitModuleMajorVer_twice_amended [OF a refl]
      splitModuleMajorVer_twice_amended [OF b refl]
    by (simp add: ev)
qed

section \<open>Local lookup: properties\<close>

lemma boundaryPrefix_cutAt:
  "boundaryPrefix P S M = (\<exists>i. cutAt M i \<and> P = take i M \<and> S = drop (Suc i) M)"
proof
  assume "boundaryPrefix P S M"
  then show "\<exists>i. cutAt M i \<and> P = take i M \<and> S = drop (Suc i) M"
  proof (unfold boundaryPrefix_def, elim disjE conjE)
    assume "P = M" "S = []"
    then have "cutAt M (length M) \<and> P = take (length M) M \<and> S = drop (Suc (length M)) M"
      by (simp add: cutAt_def)
    then show ?thesis by blast
  next
    assume "M = P @ CHR ''/'' # S"
    then have "cutAt M (length P) \<and> P = take (length P) M \<and> S = drop (Suc (length P)) M"
      by (simp add: cutAt_def)
    then show ?thesis by blast
  qed
next
  assume "\<exists>i. cutAt M i \<and> P = take i M \<and> S = drop (Suc i) M"
  then obtain i where i: "cutAt M i" "P = take i M" "S = drop (Suc i) M" by blast
  show "boundaryPrefix P S M"
  proof (cases "i = length M")
    case True
    with i show ?thesis by (simp add: boundaryPrefix_def)
  next
    case False
    with i(1) have "i < length M" "M ! i = CHR ''/''" by (auto simp: cutAt_def)
    then have "M = take i M @ CHR ''/'' # drop (Suc i) M"
      by (metis id_take_nth_drop)
    with i show ?thesis by (simp add: boundaryPrefix_def)
  qed
qed

lemma LastIndexByte_take_none:
  assumes "LastIndexByte (take sep M) c = -1" "i < sep" "i < length M"
  shows "M ! i \<noteq> c"
proof -
  have "c \<notin> set (take sep M)" using assms(1) LastIndexByte_absent by metis
  moreover have "take sep M ! i = M ! i" using assms(2) by simp
  moreover have "i < length (take sep M)" using assms(2,3) by simp
  ultimately show ?thesis by (metis nth_mem)
qed

lemma LastIndexByte_take_some:
  assumes "LastIndexByte (take sep M) c \<noteq> -1" "sep \<le> length M"
  shows "\<exists>j. LastIndexByte (take sep M) c = int j \<and> j < sep \<and> M ! j = c
            \<and> (\<forall>i. j < i \<and> i < sep \<longrightarrow> M ! i \<noteq> c)"
proof -
  have "c \<in> set (take sep M)" using assms(1) LastIndexByte_absent by metis
  then obtain pre suf where p: "take sep M = pre @ c # suf" "c \<notin> set suf"
    "LastIndexByte (take sep M) c = int (length pre)"
    using LastIndexByte_found by blast
  have len: "length (take sep M) = sep" using assms(2) by simp
  have "length (take sep M) = length pre + Suc (length suf)" by (simp add: p(1))
  with len have lens: "sep = length pre + Suc (length suf)" by simp
  then have lt: "length pre < sep" by simp
  have "take sep M ! length pre = c" using p(1) by simp
  then have at: "M ! length pre = c" using lt by simp
  have "\<forall>i. length pre < i \<and> i < sep \<longrightarrow> M ! i \<noteq> c"
  proof (intro allI impI)
    fix i assume i: "length pre < i \<and> i < sep"
    then have "take sep M ! i = M ! i" by simp
    moreover have "take sep M ! i = suf ! (i - Suc (length pre))"
      using p(1) i by (simp add: nth_append nth_Cons')
    moreover have "i - Suc (length pre) < length suf"
      using i lens by linarith
    ultimately show "M ! i \<noteq> c" using p(2) by (metis nth_mem)
  qed
  with p(3) lt at show ?thesis by blast
qed

lemma checkModVcsLocal_loop_inv:
  assumes "cutAt M sep" "subPath = drop (Suc sep) M"
    and "\<forall>i. sep < i \<and> cutAt M i \<longrightarrow> foundAt env M i = None"
  shows "case checkModVcsLocal_loop env M sep subPath of
           Inr (P, S, kind) \<Rightarrow>
             (\<exists>j. cutAt M j \<and> P = take j M \<and> S = drop (Suc j) M \<and> foundAt env M j = Some kind
                  \<and> (\<forall>i. j < i \<and> cutAt M i \<longrightarrow> foundAt env M i = None))
         | Inl e \<Rightarrow> e = ErrNotExist \<and> (\<forall>i. cutAt M i \<longrightarrow> foundAt env M i = None)"
  using assms
proof (induction env M sep subPath rule: checkModVcsLocal_loop.induct)
  case (1 env M sep subPath)
  have sepM: "sep \<le> length M" using "1.prems"(1) by (auto simp: cutAt_def)
  show ?case
  proof (cases "foundAt env M sep")
    case (Some target)
    then have "checkModVcsLocal_loop env M sep subPath = Inr (take sep M, subPath, target)"
      by (subst checkModVcsLocal_loop.simps) (simp add: foundAt_def)
    with Some "1.prems" show ?thesis by auto
  next
    case None
    note here = None
    show ?thesis
    proof (cases "LastIndexByte (take sep M) CHR ''/'' = -1")
      case True
      with here have r: "checkModVcsLocal_loop env M sep subPath = Inl ErrNotExist"
        by (subst checkModVcsLocal_loop.simps) (simp add: foundAt_def)
      have "\<forall>i. cutAt M i \<longrightarrow> foundAt env M i = None"
      proof (intro allI impI)
        fix i assume c: "cutAt M i"
        show "foundAt env M i = None"
        proof (cases "sep < i")
          case True
          with c "1.prems"(3) show ?thesis by blast
        next
          case False
          show ?thesis
          proof (cases "i = sep")
            case True
            with here show ?thesis by simp
          next
            case False
            with \<open>\<not> sep < i\<close> have "i < sep" by simp
            with sepM have "i < length M" by simp
            with True \<open>i < sep\<close> have "M ! i \<noteq> CHR ''/''" using LastIndexByte_take_none by blast
            with c \<open>i < length M\<close> show ?thesis by (simp add: cutAt_def)
          qed
        qed
      qed
      with r show ?thesis by simp
    next
      case False
      then obtain j where j: "LastIndexByte (take sep M) CHR ''/'' = int j" "j < sep"
        "M ! j = CHR ''/''" "\<forall>i. j < i \<and> i < sep \<longrightarrow> M ! i \<noteq> CHR ''/''"
        using LastIndexByte_take_some [OF _ sepM] by blast
      have r: "checkModVcsLocal_loop env M sep subPath
                 = checkModVcsLocal_loop env M j (drop (Suc j) M)"
        using here False j(1)
        by (subst checkModVcsLocal_loop.simps) (simp add: foundAt_def Let_def nat_add_distrib)
      have cj: "cutAt M j" using j(2,3) sepM by (simp add: cutAt_def)
      have above: "\<forall>i. j < i \<and> cutAt M i \<longrightarrow> foundAt env M i = None"
      proof (intro allI impI)
        fix i assume c: "j < i \<and> cutAt M i"
        show "foundAt env M i = None"
        proof (cases "sep < i")
          case True
          with c "1.prems"(3) show ?thesis by blast
        next
          case False
          show ?thesis
          proof (cases "i = sep")
            case True
            with here show ?thesis by simp
          next
            case False
            with \<open>\<not> sep < i\<close> have "i < sep" by simp
            with c j(4) have "M ! i \<noteq> CHR ''/''" by blast
            moreover have "i < length M" using \<open>i < sep\<close> sepM by simp
            ultimately show ?thesis using c by (simp add: cutAt_def)
          qed
        qed
      qed
      have "case checkModVcsLocal_loop env M (nat (LastIndexByte (take sep M) CHR ''/''))
                   (drop (nat (LastIndexByte (take sep M) CHR ''/'' + 1)) M) of
           Inr (P, S, kind) \<Rightarrow>
             (\<exists>j. cutAt M j \<and> P = take j M \<and> S = drop (Suc j) M \<and> foundAt env M j = Some kind
                  \<and> (\<forall>i. j < i \<and> cutAt M i \<longrightarrow> foundAt env M i = None))
         | Inl e \<Rightarrow> e = ErrNotExist \<and> (\<forall>i. cutAt M i \<longrightarrow> foundAt env M i = None)"
      proof (rule "1.IH" [OF refl refl _ refl False])
        show "Readlink env (pathJoin env (take sep M) ''.vcs'') = None"
          using here by (simp add: foundAt_def)
        show "cutAt M (nat (LastIndexByte (take sep M) CHR ''/''))" using cj j(1) by simp
        show "drop (nat (LastIndexByte (take sep M) CHR ''/'' + 1)) M
               = drop (Suc (nat (LastIndexByte (take sep M) CHR ''/''))) M"
          using j(1) by (simp add: nat_add_distrib)
        show "\<forall>i. nat (LastIndexByte (take sep M) CHR ''/'') < i \<and> cutAt M i \<longrightarrow> foundAt env M i = None"
          using above j(1) by simp
      qed
      then show ?thesis using r j(1) by (simp add: nat_add_distrib)
    qed
  qed
qed

text \<open>
  Claim C4. \<open>boundaryPrefix P S M\<close> says that \<open>P\<close> is a prefix of the module path
  \<open>M\<close> that ends at a slash or is \<open>M\<close> itself, with \<open>S\<close> the rest (empty when
  \<open>P\<close> is \<open>M\<close>, else \<open>M\<close> is \<open>P\<close>, a slash and \<open>S\<close>). For every module path and
  every state of the file system, \<open>checkModVcsLocal\<close> returns such a prefix whose
  \<open>.vcs\<close> is a readable link, with the rest as the subdirectory and the target of the
  link as the kind, and no longer such prefix has a readable \<open>.vcs\<close>; when no such
  prefix has one, it returns the error \<open>ErrNotExist\<close>. It always returns.
\<close>

theorem checkModVcsLocal_longest_prefix:
  "case checkModVcsLocal env M of
     Inr (P, S, kind) \<Rightarrow>
       boundaryPrefix P S M \<and> Readlink env (pathJoin env P ''.vcs'') = Some kind
       \<and> (\<forall>P' S'. boundaryPrefix P' S' M \<and> length P < length P' \<longrightarrow>
              Readlink env (pathJoin env P' ''.vcs'') = None)
   | Inl e \<Rightarrow>
       e = ErrNotExist
       \<and> (\<forall>P' S'. boundaryPrefix P' S' M \<longrightarrow> Readlink env (pathJoin env P' ''.vcs'') = None)"
proof -
  have inv: "case checkModVcsLocal_loop env M (length M) [] of
           Inr (P, S, kind) \<Rightarrow>
             (\<exists>j. cutAt M j \<and> P = take j M \<and> S = drop (Suc j) M \<and> foundAt env M j = Some kind
                  \<and> (\<forall>i. j < i \<and> cutAt M i \<longrightarrow> foundAt env M i = None))
         | Inl e \<Rightarrow> e = ErrNotExist \<and> (\<forall>i. cutAt M i \<longrightarrow> foundAt env M i = None)"
    by (rule checkModVcsLocal_loop_inv) (auto simp: cutAt_def)
  show ?thesis
  proof (cases "checkModVcsLocal_loop env M (length M) []")
    case (Inl e)
    with inv have e: "e = ErrNotExist" and none: "\<forall>i. cutAt M i \<longrightarrow> foundAt env M i = None"
      by auto
    have "\<forall>P' S'. boundaryPrefix P' S' M \<longrightarrow> Readlink env (pathJoin env P' ''.vcs'') = None"
      using none by (auto simp: boundaryPrefix_cutAt foundAt_def)
    with e Inl show ?thesis by (simp add: checkModVcsLocal_def)
  next
    case (Inr r)
    obtain P S kind where r: "r = (P, S, kind)" by (cases r) auto
    with Inr inv obtain j where j: "cutAt M j" "P = take j M" "S = drop (Suc j) M"
      "foundAt env M j = Some kind" "\<forall>i. j < i \<and> cutAt M i \<longrightarrow> foundAt env M i = None"
      by auto
    have b: "boundaryPrefix P S M" using j(1-3) boundaryPrefix_cutAt by blast
    have lenP: "length P = j" using j(1,2) by (auto simp: cutAt_def)
    have longer: "\<forall>P' S'. boundaryPrefix P' S' M \<and> length P < length P' \<longrightarrow>
              Readlink env (pathJoin env P' ''.vcs'') = None"
    proof (intro allI impI)
      fix P' S' assume a: "boundaryPrefix P' S' M \<and> length P < length P'"
      then obtain i where i: "cutAt M i" "P' = take i M" using boundaryPrefix_cutAt by blast
      then have "length P' = i" by (auto simp: cutAt_def)
      with a lenP have "j < i" by simp
      with i(1) j(5) have "foundAt env M i = None" by blast
      with i(2) show "Readlink env (pathJoin env P' ''.vcs'') = None" by (simp add: foundAt_def)
    qed
    from j(2,4) have "Readlink env (pathJoin env P ''.vcs'') = Some kind" by (simp add: foundAt_def)
    with b longer Inr r show ?thesis by (simp add: checkModVcsLocal_def)
  qed
qed

text \<open>The lookup of \<open>example.com/a/b\<close> in the two example environments.\<close>

lemma checkModVcsLocal_cachedEnv:
  "checkModVcsLocal cachedEnv ''example.com/a/b'' = Inr (''example.com/a'', ''b'', ''.git'')"
  by (simp add: checkModVcsLocal_def checkModVcsLocal_loop.simps cachedEnv_def offlineEnv_def Let_def)

lemma checkModVcsLocal_offlineEnv:
  "checkModVcsLocal offlineEnv ''example.com/a/b'' = Inl ErrNotExist"
  by (simp add: checkModVcsLocal_def checkModVcsLocal_loop.simps offlineEnv_def Let_def)

theorem checkModVcsLocal_longest_prefix_witness:
  "checkModVcsLocal cachedEnv ''example.com/a/b'' = Inr (''example.com/a'', ''b'', ''.git'')
   \<and> boundaryPrefix ''example.com/a'' ''b'' ''example.com/a/b''
   \<and> Readlink cachedEnv (pathJoin cachedEnv ''example.com/a/b'' ''.vcs'') = None
   \<and> checkModVcsLocal offlineEnv ''example.com/a/b'' = Inl ErrNotExist
   \<and> Readlink offlineEnv (pathJoin offlineEnv ''example.com'' ''.vcs'') = None"
proof -
  have b1: "boundaryPrefix ''example.com/a/b'' [] ''example.com/a/b''"
    and b2: "boundaryPrefix ''example.com'' ''a/b'' ''example.com/a/b''"
    by (simp_all add: boundaryPrefix_def)
  show ?thesis
    using checkModVcsLocal_longest_prefix [where env = cachedEnv and M = "''example.com/a/b''"]
      checkModVcsLocal_longest_prefix [where env = offlineEnv and M = "''example.com/a/b''"]
      b1 b2
    by (auto simp: checkModVcsLocal_cachedEnv checkModVcsLocal_offlineEnv)
qed

section \<open>The assembler and the existence check: properties\<close>

subsection \<open>The shape of a canonical version\<close>

text \<open>A canonical version is empty (the version was invalid) or \<open>v\<close> followed by a
  digit: \<open>parse\<close> accepts only such strings, and \<open>semver.Canonical\<close> cuts at most the
  build suffix, which lies behind the patch number.\<close>

lemma parseInt_Some:
  assumes "parseInt w = Some (t, r)"
  shows "w \<noteq> [] \<and> isDigit (hd w) \<and> length r < length w"
proof -
  from assms have ne: "w \<noteq> []" by (auto simp: parseInt_def split: if_splits)
  from assms ne have d: "\<not> (hd w < CHR ''0'' \<or> CHR ''9'' < hd w)"
    by (auto simp: parseInt_def split: if_splits)
  then have dig: "isDigit (hd w)" by (auto simp: isDigit_def)
  from assms ne d have "r = drop (1 + length (takeWhile isDigit (tl w))) w"
    by (auto simp: parseInt_def Let_def split: if_splits)
  then have "length r < length w" using ne by (cases w) auto
  with ne dig show ?thesis by simp
qed

lemma parsePrerelease_loop_length:
  "parsePrerelease_loop cs cur = Some (t, rest) \<Longrightarrow> length rest \<le> length cs"
proof (induction cs arbitrary: cur t rest)
  case Nil
  then show ?case by (auto split: if_splits)
next
  case (Cons c cs)
  show ?case
  proof (cases "c = CHR ''+''")
    case True
    with Cons.prems show ?thesis by (auto split: if_splits)
  next
    case False
    note notplus = False
    show ?thesis
    proof (cases "c = CHR ''.''")
      case True
      with Cons.prems notplus obtain t' where "parsePrerelease_loop cs [] = Some (t', rest)"
        by (auto split: if_splits)
      then have "length rest \<le> length cs" by (rule Cons.IH)
      then show ?thesis by simp
    next
      case False
      with Cons.prems notplus obtain t' where "parsePrerelease_loop cs (cur @ [c]) = Some (t', rest)"
        by (auto split: if_splits)
      then have "length rest \<le> length cs" by (rule Cons.IH)
      then show ?thesis by simp
    qed
  qed
qed

lemma parsePrerelease_length:
  "parsePrerelease v = Some (t, rest) \<Longrightarrow> length rest \<le> length v"
proof -
  assume a: "parsePrerelease v = Some (t, rest)"
  then have ne: "v \<noteq> []" by (auto simp: parsePrerelease_def split: if_splits)
  with a obtain t' where "parsePrerelease_loop (tl v) [] = Some (t', rest)"
    by (auto simp: parsePrerelease_def split: if_splits)
  then have "length rest \<le> length (tl v)" by (rule parsePrerelease_loop_length)
  then show ?thesis by simp
qed

lemma parseBuild_whole: "parseBuild v = Some (t, rest) \<Longrightarrow> t = v"
  by (auto simp: parseBuild_def split: if_splits)

lemma parse_tail_build:
  assumes "parse_tail p0 v3 = Some p" "pbuild p0 = []"
  shows "length (pbuild p) \<le> length v3"
proof (cases "v3 \<noteq> [] \<and> hd v3 = CHR ''-''")
  case True
  with assms(1) obtain t rest where pre: "parsePrerelease v3 = Some (t, rest)"
    by (auto simp: parse_tail_def split: option.splits if_splits)
  then have len: "length rest \<le> length v3" by (rule parsePrerelease_length)
  show ?thesis
  proof (cases "rest \<noteq> [] \<and> hd rest = CHR ''+''")
    case True
    with assms(1) \<open>v3 \<noteq> [] \<and> hd v3 = CHR ''-''\<close> pre obtain b r where
      "parseBuild rest = Some (b, r)" "pbuild p = b"
      by (auto simp: parse_tail_def split: option.splits if_splits)
    then have "pbuild p = rest" using parseBuild_whole by blast
    with len show ?thesis by simp
  next
    case False
    with assms \<open>v3 \<noteq> [] \<and> hd v3 = CHR ''-''\<close> pre have "pbuild p = []"
      by (auto simp: parse_tail_def split: option.splits if_splits)
    then show ?thesis by simp
  qed
next
  case False
  note nopre = False
  show ?thesis
  proof (cases "v3 \<noteq> [] \<and> hd v3 = CHR ''+''")
    case True
    with assms(1) nopre obtain b r where "parseBuild v3 = Some (b, r)" "pbuild p = b"
      by (auto simp: parse_tail_def split: option.splits if_splits)
    then have "pbuild p = v3" using parseBuild_whole by blast
    then show ?thesis by simp
  next
    case False
    with assms nopre have "pbuild p = []"
      by (auto simp: parse_tail_def split: option.splits if_splits)
    then show ?thesis by simp
  qed
qed

lemma parse_shape:
  assumes "parse v = Some p"
  shows "\<exists>d rest. v = CHR ''v'' # d # rest \<and> isDigit d \<and> length (pbuild p) \<le> length rest"
proof -
  from assms have v: "v \<noteq> []" "hd v = CHR ''v''"
    by (auto simp: parse_def Let_def split: if_splits)
  with assms obtain ma v1 where i1: "parseInt (tl v) = Some (ma, v1)"
    by (auto simp: parse_def Let_def split: if_splits option.splits)
  then have w: "tl v \<noteq> []" "isDigit (hd (tl v))" "length v1 < length (tl v)"
    using parseInt_Some by blast+
  have shape: "v = CHR ''v'' # hd (tl v) # tl (tl v)" using v w(1) by (cases v) auto
  have "length (pbuild p) \<le> length (tl (tl v))"
  proof (cases "v1 = []")
    case True
    with assms v i1 have "pbuild p = []" by (auto simp: parse_def Let_def)
    then show ?thesis by simp
  next
    case False
    note v1 = False
    with assms v i1 have dot1: "hd v1 = CHR ''.''"
      by (auto simp: parse_def Let_def split: if_splits)
    with assms v i1 v1 obtain mi v2 where i2: "parseInt (tl v1) = Some (mi, v2)"
      by (auto simp: parse_def Let_def split: if_splits option.splits)
    then have l2: "length v2 < length (tl v1)" using parseInt_Some by blast
    show ?thesis
    proof (cases "v2 = []")
      case True
      with assms v i1 v1 dot1 i2 have "pbuild p = []" by (auto simp: parse_def Let_def)
      then show ?thesis by simp
    next
      case False
      note v2 = False
      with assms v i1 v1 dot1 i2 have dot2: "hd v2 = CHR ''.''"
        by (auto simp: parse_def Let_def split: if_splits)
      with assms v i1 v1 dot1 i2 v2 obtain pa v3 where i3: "parseInt (tl v2) = Some (pa, v3)"
        by (auto simp: parse_def Let_def split: if_splits option.splits)
      then have l3: "length v3 < length (tl v2)" using parseInt_Some by blast
      from assms v i1 v1 dot1 i2 v2 dot2 i3 obtain p0 where
        "parse_tail p0 v3 = Some p" "pbuild p0 = []"
        by (auto simp: parse_def Let_def)
      then have "length (pbuild p) \<le> length v3" by (rule parse_tail_build)
      with l3 l2 w(3) show ?thesis by simp
    qed
  qed
  with shape w(2) show ?thesis by blast
qed

lemma semver_Canonical_shape:
  "semver_Canonical ver = [] \<or>
   (\<exists>d rest. semver_Canonical ver = CHR ''v'' # d # rest \<and> isDigit d)"
proof (cases "parse ver")
  case None
  then show ?thesis by (simp add: semver_Canonical_def)
next
  case (Some p)
  then obtain d rest where s: "ver = CHR ''v'' # d # rest" "isDigit d"
    "length (pbuild p) \<le> length rest"
    using parse_shape by blast
  then have "take (length ver - length (pbuild p)) ver
               = CHR ''v'' # d # take (length rest - length (pbuild p)) rest"
    by (simp add: Suc_diff_le)
  with Some s(1,2) show ?thesis by (auto simp: semver_Canonical_def)
qed

lemma isDigit_not_v: "isDigit d \<Longrightarrow> d \<noteq> CHR ''v''"
  by (auto simp: isDigit_def less_eq_char_def)

lemma semver_Canonical_cut:
  assumes "HasPrefix (semver_Canonical ver) ''v''"
  shows "fst (CutPrefix (semver_Canonical ver) ''v'') = drop 1 (semver_Canonical ver)
       \<and> \<not> HasPrefix (drop 1 (semver_Canonical ver)) ''v''"
proof -
  from assms have "semver_Canonical ver \<noteq> []" by (auto simp: HasPrefix_def)
  then obtain d rest where "semver_Canonical ver = CHR ''v'' # d # rest" "isDigit d"
    using semver_Canonical_shape by blast
  then show ?thesis using isDigit_not_v by (auto simp: CutPrefix_def HasPrefix_def)
qed

subsection \<open>The refspec and its retry\<close>

lemma logRefspecs_append: "logRefspecs (xs @ ys) = logRefspecs xs @ logRefspecs ys"
  by (induction xs rule: logRefspecs.induct) auto

lemma cacheModGit_retry_refspec_last:
  assumes "\<not> (\<not> pseudoVer \<and> subPath = [] \<and> HasPrefix refspec ''v'')"
  shows "cacheModGit_retry_refspec env gitdir pseudoVer subPath refspec
           = ([GitCmd gitdir [''log'', ''-1'', ''--format=%H'', refspec]],
              gitRun env gitdir [''log'', ''-1'', ''--format=%H'', refspec])"
  using assms by (subst cacheModGit_retry_refspec.simps) (auto simp: Let_def)

lemma cacheModGit_retry_refspec_found:
  assumes "gitRun env gitdir [''log'', ''-1'', ''--format=%H'', refspec]"
  shows "cacheModGit_retry_refspec env gitdir pseudoVer subPath refspec
           = ([GitCmd gitdir [''log'', ''-1'', ''--format=%H'', refspec]], True)"
  using assms by (subst cacheModGit_retry_refspec.simps) (auto simp: Let_def)

lemma cacheModGit_retry_refspec_again:
  assumes "\<not> gitRun env gitdir [''log'', ''-1'', ''--format=%H'', refspec]"
    and "\<not> pseudoVer" "subPath = []" "HasPrefix refspec ''v''"
  shows "cacheModGit_retry_refspec env gitdir pseudoVer subPath refspec
           = (GitCmd gitdir [''log'', ''-1'', ''--format=%H'', refspec]
                # fst (cacheModGit_retry_refspec env gitdir pseudoVer subPath
                        (fst (CutPrefix refspec ''v''))),
              snd (cacheModGit_retry_refspec env gitdir pseudoVer subPath
                        (fst (CutPrefix refspec ''v''))))"
  using assms
  by (subst cacheModGit_retry_refspec.simps) (auto simp: Let_def split: prod.splits)

lemma serveModGit_retry_refspec_last:
  assumes "\<not> (\<not> pseudoVer \<and> subPath = [] \<and> HasPrefix refspec ''v'')"
  shows "fst (serveModGit_retry_refspec env gitdir pseudoVer subPath refspec)
           = [GitCmd gitdir [''log'', ''-1'', ''--format=%ct'', refspec]]"
  using assms
  by (subst serveModGit_retry_refspec.simps) (auto simp: Let_def split: option.splits)

lemma serveModGit_retry_refspec_found:
  assumes "commitTime env gitdir refspec \<noteq> None"
  shows "fst (serveModGit_retry_refspec env gitdir pseudoVer subPath refspec)
           = [GitCmd gitdir [''log'', ''-1'', ''--format=%ct'', refspec]]"
  using assms
  by (subst serveModGit_retry_refspec.simps) (auto simp: Let_def split: option.splits)

lemma serveModGit_retry_refspec_again:
  assumes "commitTime env gitdir refspec = None"
    and "\<not> pseudoVer" "subPath = []" "HasPrefix refspec ''v''"
  shows "fst (serveModGit_retry_refspec env gitdir pseudoVer subPath refspec)
           = GitCmd gitdir [''log'', ''-1'', ''--format=%ct'', refspec]
                # fst (serveModGit_retry_refspec env gitdir pseudoVer subPath
                        (fst (CutPrefix refspec ''v'')))"
  using assms
  by (subst serveModGit_retry_refspec.simps) (auto simp: Let_def split: prod.splits)

lemma logRefspecs_retry_mod:
  "logRefspecs (fst (serveModGit_retry_mod env gitdir treeish modFull arg2)) = []"
proof (induction env gitdir treeish modFull arg2 rule: serveModGit_retry_mod.induct)
  case (1 env gitdir treeish modFull arg2)
  show ?case
  proof (cases "extractGoMod env gitdir [''archive'', ''--format=tar'', arg2, ''go.mod'']")
    case NotStarted
    then show ?thesis by (subst serveModGit_retry_mod.simps) simp
  next
    case (Extracted data)
    then show ?thesis by (subst serveModGit_retry_mod.simps) simp
  next
    case NoGoMod
    show ?thesis
    proof (cases "arg2 = treeish")
      case True
      with NoGoMod show ?thesis by (subst serveModGit_retry_mod.simps) simp
    next
      case False
      with NoGoMod "1.IH" [OF refl NoGoMod False] show ?thesis
        by (subst serveModGit_retry_mod.simps) (simp add: split_beta)
    qed
  qed
qed

lemma logRefspecs_collect:
  "logRefspecs (fst (collectGitArchiveOpts env gitdir pfx treeish vertag)) = []"
  by (simp add: collectGitArchiveOpts_def vendorExcludes_def Let_def split: option.splits prod.splits)

lemma collect_second_pass_args:
  "collectGitArchiveOpts env gitdir pfx treeish vertag = (first, Inr (cmdArgs, license))
     \<Longrightarrow> \<exists>t rest. cmdArgs = ''archive'' # ''--prefix'' # pfx # ''--format=zip'' # ''-0'' # t # rest"
  by (auto simp: collectGitArchiveOpts_def vendorExcludes_def Let_def
           split: option.splits prod.splits if_splits)

lemma logRefspecs_passes:
  "logRefspecs (fst (serveModGit_passes env gitdir pfx refspec subPath verMajorTag)) = []"
proof (cases "collectGitArchiveOpts env gitdir pfx (refspec @ ''^{tree}:'' @ subPath) verMajorTag")
  case (Pair first r)
  have f: "logRefspecs first = []" using logRefspecs_collect [of env gitdir pfx] Pair
    by (metis fst_conv)
  show ?thesis
  proof (cases r)
    case (Inl e)
    with Pair f show ?thesis by (simp add: serveModGit_passes_def)
  next
    case (Inr ok)
    obtain cmdArgs license where ok: "ok = (cmdArgs, license)" by (cases ok) auto
    with Pair Inr obtain t rest where
      c: "cmdArgs = ''archive'' # ''--prefix'' # pfx # ''--format=zip'' # ''-0'' # t # rest"
      using collect_second_pass_args by blast
    show ?thesis
      using Pair Inr ok f
      by (auto simp: serveModGit_passes_def Let_def logRefspecs_append c split: exit_status.splits)
  qed
qed

lemma logRefspecs_append_license: "logRefspecs (fst (serveModGit_append env pfx)) = []"
  by (simp add: serveModGit_append_def Let_def)

lemma logRefspecs_license:
  "logRefspecs (fst (serveModGit_license env gitdir pfx refspec)) = []"
  using logRefspecs_append_license [of env pfx]
  by (auto simp: serveModGit_license_def Let_def logRefspecs_append
           split: option.splits prod.splits)

lemma logRefspecs_zip:
  "logRefspecs (fst (serveModGit_zip env gitdir refspec subPath verMajorTag modFull ver)) = []"
  using logRefspecs_passes [of env gitdir "Join [modFull, ver] ''@'' @ ''/''" refspec subPath verMajorTag]
    logRefspecs_license [of env gitdir "Join [modFull, ver] ''@'' @ ''/''" refspec]
  by (auto simp: serveModGit_zip_def Let_def logRefspecs_append split: prod.splits sum.splits)

lemma logRefspecs_mod:
  "logRefspecs (fst (serveModGit_mod env gitdir refspec subPath verMajorTag modFull)) = []"
  by (simp add: serveModGit_mod_def Let_def logRefspecs_retry_mod)

lemma serveModGit_logs:
  "logRefspecs (fst (serveModGit env modulePath verMajorTag subPath verCanonical ext incompat))
     = logRefspecs (fst (serveModGit_resolve env modulePath subPath verCanonical))"
proof (cases "serveModGit_resolve env modulePath subPath verCanonical")
  case (Pair logs r)
  show ?thesis
  proof (cases r)
    case (Inl e)
    with Pair show ?thesis by (simp add: serveModGit_def)
  next
    case (Inr ok)
    with Pair show ?thesis
      by (simp add: serveModGit_def Let_def split_beta logRefspecs_append logRefspecs_mod
            logRefspecs_zip split: option.splits)
  qed
qed

lemma serveModGit_resolve_logs:
  "fst (serveModGit_resolve env modulePath subPath verCanonical)
     = fst (serveModGit_retry_refspec env (pathJoin env modulePath ''.git'')
              (IsPseudoVersion env verCanonical) subPath
              (if IsPseudoVersion env verCanonical then PseudoVersionRev env verCanonical
               else if subPath \<noteq> [] then Join [subPath, verCanonical] ''/''
               else verCanonical))"
  by (simp add: serveModGit_resolve_def Let_def split: prod.splits option.splits)

text \<open>
  Claim C5. \<open>logRefspecs\<close> lists the refspecs of the \<open>git log\<close> commands that a
  function ran. For every version \<open>ver\<close>, with \<open>canonical\<close> its canonical form
  (\<open>cacheModGit\<close> computes it from \<open>ver\<close>; \<open>serveModGit\<close> receives it from
  \<open>serveModCached\<close>, which passes \<open>semver.Canonical(ver)\<close>): the first refspec queried
  is the commit hash of the pseudo-version when the canonical version is one, else
  \<open>subPath/canonical\<close> when there is a subdirectory, else the canonical version. When
  that query fails, the version is no pseudo-version, there is no subdirectory and the
  refspec begins with \<open>v\<close>, exactly one more query is made, for the refspec without
  its first character; in every other case no other query is made. This holds for
  \<open>cacheModGit\<close> (without a remote), where the query is \<open>git log -1 --format=%H\<close>,
  and for \<open>serveModGit\<close>, where it is \<open>git log -1 --format=%ct\<close> followed by the
  parsing of its output.
\<close>

theorem refspec_and_retry:
  assumes "canonical = semver_Canonical ver"
    and "pseudoVer = IsPseudoVersion env canonical"
    and "refspec = (if pseudoVer then PseudoVersionRev env canonical
                    else if subPath \<noteq> [] then subPath @ ''/'' @ canonical
                    else canonical)"
    and "gitdir = pathJoin env modulePath ''.git''"
  shows "logRefspecs (fst (cacheModGit env modulePath subPath ver []))
           = (if \<not> gitRun env gitdir [''log'', ''-1'', ''--format=%H'', refspec]
                 \<and> \<not> pseudoVer \<and> subPath = [] \<and> HasPrefix refspec ''v''
              then [refspec, drop 1 refspec] else [refspec])
       \<and> logRefspecs (fst (serveModGit env modulePath verMajorTag subPath canonical ext incompat))
           = (if commitTime env gitdir refspec = None
                 \<and> \<not> pseudoVer \<and> subPath = [] \<and> HasPrefix refspec ''v''
              then [refspec, drop 1 refspec] else [refspec])"
proof -
  have r: "refspec = (if pseudoVer then PseudoVersionRev env canonical
                      else if subPath \<noteq> [] then Join [subPath, canonical] ''/''
                      else canonical)"
    using assms(3) by simp
  have cut: "fst (CutPrefix refspec ''v'') = drop 1 refspec
               \<and> \<not> HasPrefix (drop 1 refspec) ''v''"
    if h: "\<not> pseudoVer \<and> subPath = [] \<and> HasPrefix refspec ''v''"
  proof -
    from h r assms(1) have "refspec = semver_Canonical ver" by simp
    with h show ?thesis using semver_Canonical_cut [of ver] by simp
  qed
  have c: "fst (cacheModGit env modulePath subPath ver [])
             = fst (cacheModGit_retry_refspec env gitdir pseudoVer subPath refspec)"
    using assms(1,2,4) r by (simp add: cacheModGit_def Let_def split: prod.splits)
  have loopC: "fst (cacheModGit_retry_refspec env gitdir pseudoVer subPath refspec)
           = (if \<not> gitRun env gitdir [''log'', ''-1'', ''--format=%H'', refspec]
                 \<and> \<not> pseudoVer \<and> subPath = [] \<and> HasPrefix refspec ''v''
              then [GitCmd gitdir [''log'', ''-1'', ''--format=%H'', refspec],
                    GitCmd gitdir [''log'', ''-1'', ''--format=%H'', drop 1 refspec]]
              else [GitCmd gitdir [''log'', ''-1'', ''--format=%H'', refspec]])"
  proof (cases "gitRun env gitdir [''log'', ''-1'', ''--format=%H'', refspec]")
    case True
    then show ?thesis by (simp add: cacheModGit_retry_refspec_found)
  next
    case False
    note failed = False
    show ?thesis
    proof (cases "\<not> pseudoVer \<and> subPath = [] \<and> HasPrefix refspec ''v''")
      case True
      from cut [OF True] have k: "fst (CutPrefix refspec ''v'') = drop 1 refspec"
        "\<not> (\<not> pseudoVer \<and> subPath = [] \<and> HasPrefix (drop 1 refspec) ''v'')" by auto
      from True have t: "\<not> pseudoVer" "subPath = []" "HasPrefix refspec ''v''" by auto
      have "fst (cacheModGit_retry_refspec env gitdir pseudoVer subPath refspec)
              = GitCmd gitdir [''log'', ''-1'', ''--format=%H'', refspec]
                  # fst (cacheModGit_retry_refspec env gitdir pseudoVer subPath (drop 1 refspec))"
        unfolding cacheModGit_retry_refspec_again [OF failed t] k(1) by (rule fst_conv)
      also have "cacheModGit_retry_refspec env gitdir pseudoVer subPath (drop 1 refspec)
              = ([GitCmd gitdir [''log'', ''-1'', ''--format=%H'', drop 1 refspec]],
                 gitRun env gitdir [''log'', ''-1'', ''--format=%H'', drop 1 refspec])"
        by (rule cacheModGit_retry_refspec_last [OF k(2)])
      finally show ?thesis using failed True by simp
    next
      case False
      then show ?thesis by (simp add: cacheModGit_retry_refspec_last)
    qed
  qed
  have first: "logRefspecs (fst (cacheModGit env modulePath subPath ver []))
           = (if \<not> gitRun env gitdir [''log'', ''-1'', ''--format=%H'', refspec]
                 \<and> \<not> pseudoVer \<and> subPath = [] \<and> HasPrefix refspec ''v''
              then [refspec, drop 1 refspec] else [refspec])"
    unfolding c loopC by simp
  have s: "logRefspecs (fst (serveModGit env modulePath verMajorTag subPath canonical ext incompat))
             = logRefspecs (fst (serveModGit_retry_refspec env gitdir pseudoVer subPath refspec))"
    using assms(2,4) r by (simp add: serveModGit_logs serveModGit_resolve_logs)
  have loopS: "fst (serveModGit_retry_refspec env gitdir pseudoVer subPath refspec)
           = (if commitTime env gitdir refspec = None
                 \<and> \<not> pseudoVer \<and> subPath = [] \<and> HasPrefix refspec ''v''
              then [GitCmd gitdir [''log'', ''-1'', ''--format=%ct'', refspec],
                    GitCmd gitdir [''log'', ''-1'', ''--format=%ct'', drop 1 refspec]]
              else [GitCmd gitdir [''log'', ''-1'', ''--format=%ct'', refspec]])"
  proof (cases "commitTime env gitdir refspec")
    case (Some tm)
    then show ?thesis by (simp add: serveModGit_retry_refspec_found)
  next
    case None
    note failed = None
    show ?thesis
    proof (cases "\<not> pseudoVer \<and> subPath = [] \<and> HasPrefix refspec ''v''")
      case True
      from cut [OF True] have k: "fst (CutPrefix refspec ''v'') = drop 1 refspec"
        "\<not> (\<not> pseudoVer \<and> subPath = [] \<and> HasPrefix (drop 1 refspec) ''v'')" by auto
      from True have t: "\<not> pseudoVer" "subPath = []" "HasPrefix refspec ''v''" by auto
      have "fst (serveModGit_retry_refspec env gitdir pseudoVer subPath refspec)
              = GitCmd gitdir [''log'', ''-1'', ''--format=%ct'', refspec]
                  # fst (serveModGit_retry_refspec env gitdir pseudoVer subPath (drop 1 refspec))"
        unfolding serveModGit_retry_refspec_again [OF failed t] k(1) by (rule refl)
      also have "fst (serveModGit_retry_refspec env gitdir pseudoVer subPath (drop 1 refspec))
              = [GitCmd gitdir [''log'', ''-1'', ''--format=%ct'', drop 1 refspec]]"
        by (rule serveModGit_retry_refspec_last [OF k(2)])
      finally show ?thesis using failed True by simp
    next
      case False
      then show ?thesis by (simp add: serveModGit_retry_refspec_last)
    qed
  qed
  have second: "logRefspecs (fst (serveModGit env modulePath verMajorTag subPath canonical ext incompat))
           = (if commitTime env gitdir refspec = None
                 \<and> \<not> pseudoVer \<and> subPath = [] \<and> HasPrefix refspec ''v''
              then [refspec, drop 1 refspec] else [refspec])"
    unfolding s loopS by simp
  from first second show ?thesis by simp
qed

subsection \<open>The artifacts\<close>

lemma serveModGit_retry_mod_plain:
  "serveModGit_retry_mod env gitdir treeish modFull treeish =
     (case extractGoMod env gitdir [''archive'', ''--format=tar'', treeish, ''go.mod''] of
        NotStarted \<Rightarrow>
          ([GitCmd gitdir [''archive'', ''--format=tar'', treeish, ''go.mod'']],
           Inl FailedGitArchiveMod)
      | Extracted data \<Rightarrow>
          ([GitCmd gitdir [''archive'', ''--format=tar'', treeish, ''go.mod'']],
           Inr (Bytes data))
      | NoGoMod \<Rightarrow>
          ([GitCmd gitdir [''archive'', ''--format=tar'', treeish, ''go.mod'']],
           Inr (Bytes (''module '' @ modFull @ [CHR 0x0A]))))"
  by (subst serveModGit_retry_mod.simps) (simp add: Let_def split: extraction.splits)

lemma serveModGit_retry_mod_tagged:
  assumes "arg2 \<noteq> treeish"
  shows "serveModGit_retry_mod env gitdir treeish modFull arg2 =
     (case extractGoMod env gitdir [''archive'', ''--format=tar'', arg2, ''go.mod''] of
        NotStarted \<Rightarrow>
          ([GitCmd gitdir [''archive'', ''--format=tar'', arg2, ''go.mod'']],
           Inl FailedGitArchiveMod)
      | Extracted data \<Rightarrow>
          ([GitCmd gitdir [''archive'', ''--format=tar'', arg2, ''go.mod'']],
           Inr (Bytes data))
      | NoGoMod \<Rightarrow>
          (GitCmd gitdir [''archive'', ''--format=tar'', arg2, ''go.mod'']
             # fst (serveModGit_retry_mod env gitdir treeish modFull treeish),
           snd (serveModGit_retry_mod env gitdir treeish modFull treeish)))"
  using assms
  by (subst serveModGit_retry_mod.simps) (simp add: Let_def split_beta split: extraction.splits)

lemma serveModGit_mod_result:
  assumes "serveModGit_resolve env modulePath subPath verCanonical = (logs, Inr (refspec, tm))"
  shows "serveModGit env modulePath verMajorTag subPath verCanonical ''.mod'' incompat
           = (logs @ fst (serveModGit_mod env (pathJoin env modulePath ''.git'') refspec subPath
                            verMajorTag
                            (modulePath @ (if subPath \<noteq> [] then ''/'' @ subPath else [])
                               @ (if verMajorTag \<noteq> [] then ''/'' @ verMajorTag else []))),
              snd (serveModGit_mod env (pathJoin env modulePath ''.git'') refspec subPath
                            verMajorTag
                            (modulePath @ (if subPath \<noteq> [] then ''/'' @ subPath else [])
                               @ (if verMajorTag \<noteq> [] then ''/'' @ verMajorTag else []))))"
  using assms by (simp add: serveModGit_def Let_def split_beta)

text \<open>
  Claim C6, as the code has it. Let a \<open>.mod\<close> request reach the extraction:
  \<open>serveModGit_resolve\<close> has resolved the refspec and checked the time, after the
  commands \<open>logs\<close>. An extraction (\<open>extractGoMod\<close>) has three outcomes: \<open>git archive\<close>
  cannot be started (\<open>NotStarted\<close>); it ran and gave \<open>go.mod\<close> (\<open>Extracted\<close>); it
  ran and \<open>go.mod\<close> could not be read from its output or it ended with an error
  (\<open>NoGoMod\<close>). The next command is the extraction from
  \<open>refspec^{tree}:subPath/verMajorTag\<close> (without \<open>subPath/\<close> when there is no
  subdirectory). When there is a major tag and that extraction ran without giving
  \<open>go.mod\<close>, exactly one more extraction is made, from the tree without the tag; with
  no tag, or with another outcome of the first extraction, no other command is run. An
  extraction that gives \<open>go.mod\<close> gives the body. When both extractions ran without
  giving \<open>go.mod\<close>, the result is no error but exactly the body \<open>module modFull\<close> and
  a newline, where \<open>modFull\<close> is the module path joined with the subdirectory and
  the tag. When an extraction cannot be started, the result is an error.
\<close>

theorem serveModGit_mod_extraction:
  assumes "serveModGit_resolve env modulePath subPath verCanonical = (logs, Inr (refspec, tm))"
    and "gitdir = pathJoin env modulePath ''.git''"
    and "treeish = refspec @ ''^{tree}:'' @ (if subPath \<noteq> [] then subPath @ ''/'' else [])"
    and "tagged = [''archive'', ''--format=tar'', treeish @ verMajorTag, ''go.mod'']"
    and "plain = [''archive'', ''--format=tar'', treeish, ''go.mod'']"
    and "modFull = modulePath @ (if subPath \<noteq> [] then ''/'' @ subPath else [])
                     @ (if verMajorTag \<noteq> [] then ''/'' @ verMajorTag else [])"
    and "result = serveModGit env modulePath verMajorTag subPath verCanonical ''.mod'' incompat"
  shows "(\<exists>rest. fst result = logs @ GitCmd gitdir tagged # rest)
       \<and> (verMajorTag \<noteq> [] \<and> extractGoMod env gitdir tagged = NoGoMod \<longrightarrow>
            fst result = logs @ [GitCmd gitdir tagged, GitCmd gitdir plain])
       \<and> (verMajorTag = [] \<or> extractGoMod env gitdir tagged \<noteq> NoGoMod \<longrightarrow>
            fst result = logs @ [GitCmd gitdir tagged])
       \<and> (extractGoMod env gitdir tagged = Extracted data \<longrightarrow> snd result = Inr (Bytes data))
       \<and> (extractGoMod env gitdir tagged = NoGoMod \<and> extractGoMod env gitdir plain = Extracted data
            \<longrightarrow> snd result = Inr (Bytes data))
       \<and> (extractGoMod env gitdir tagged = NoGoMod \<and> extractGoMod env gitdir plain = NoGoMod
            \<longrightarrow> snd result = Inr (Bytes (''module '' @ modFull @ [CHR 0x0A])))
       \<and> (extractGoMod env gitdir tagged = NotStarted \<longrightarrow> snd result = Inl FailedGitArchiveMod)
       \<and> (extractGoMod env gitdir tagged = NoGoMod \<and> extractGoMod env gitdir plain = NotStarted
            \<longrightarrow> snd result = Inl FailedGitArchiveMod)"
proof -
  let ?m = "serveModGit_mod env gitdir refspec subPath verMajorTag modFull"
  have res: "result = (logs @ fst ?m, snd ?m)"
    unfolding assms(7) assms(2) assms(6) by (rule serveModGit_mod_result [OF assms(1)])
  show ?thesis
  proof (cases "verMajorTag = []")
    case True
    then have tp: "tagged = plain" by (simp add: assms(4,5))
    have m: "?m = serveModGit_retry_mod env gitdir treeish modFull treeish"
      using True by (simp add: serveModGit_mod_def Let_def assms(3))
    show ?thesis
      unfolding res m serveModGit_retry_mod_plain tp assms(5)
      using True by (simp split: extraction.splits)
  next
    case False
    then have ne: "treeish @ verMajorTag \<noteq> treeish" by simp
    have m: "?m = serveModGit_retry_mod env gitdir treeish modFull (treeish @ verMajorTag)"
      using False by (simp add: serveModGit_mod_def Let_def assms(3))
    show ?thesis
      unfolding res m serveModGit_retry_mod_tagged [OF ne] serveModGit_retry_mod_plain
        assms(4) assms(5)
      using False by (simp split: extraction.splits)
  qed
qed

text \<open>What the first pass reports: when the tree holds a regular file
  \<open>vertag/go.mod\<close> the module lives in the versioned directory and the \<open>LICENSE\<close>
  looked for is \<open>vertag/LICENSE\<close>, else it is \<open>LICENSE\<close>.\<close>

lemma verLicense_not_root: "vertag @ ''/LICENSE'' \<noteq> ''LICENSE''"
proof
  assume "vertag @ ''/LICENSE'' = ''LICENSE''"
  then have "length (vertag @ ''/LICENSE'') = length ''LICENSE''" by (rule arg_cong)
  then show False by simp
qed

lemma survey_step_hasLicense:
  "hasLicense (survey_step vertag s h)
     = (hasLicense s \<or> (Typeflag h = TypeReg \<and> Name h = ''LICENSE''))"
  by (simp add: survey_step_def Let_def)

lemma survey_step_hasVerLicense:
  "hasVerLicense (survey_step vertag s h)
     = (hasVerLicense s \<or> (Typeflag h = TypeReg \<and> Name h = vertag @ ''/LICENSE''))"
  using verLicense_not_root [of vertag] by (simp add: survey_step_def Let_def)

lemma survey_step_useVersionedDir:
  "useVersionedDir (survey_step vertag s h)
     = (useVersionedDir s \<or> (Typeflag h = TypeReg \<and> HasSuffix (Name h) ''/go.mod''
            \<and> TrimSuffix (Name h) ''/go.mod'' = vertag))"
  by (simp add: survey_step_def Let_def)

lemma survey_hasLicense:
  "hasLicense (foldl (survey_step vertag) s hs)
     = (hasLicense s \<or> (\<exists>h \<in> set hs. Typeflag h = TypeReg \<and> Name h = ''LICENSE''))"
  by (induction hs arbitrary: s) (simp_all add: survey_step_hasLicense disj_assoc)

lemma survey_hasVerLicense:
  "hasVerLicense (foldl (survey_step vertag) s hs)
     = (hasVerLicense s \<or> (\<exists>h \<in> set hs. Typeflag h = TypeReg \<and> Name h = vertag @ ''/LICENSE''))"
  by (induction hs arbitrary: s) (simp_all add: survey_step_hasVerLicense disj_assoc)

lemma survey_useVersionedDir:
  "useVersionedDir (foldl (survey_step vertag) s hs)
     = (useVersionedDir s \<or> (\<exists>h \<in> set hs. Typeflag h = TypeReg \<and> HasSuffix (Name h) ''/go.mod''
            \<and> TrimSuffix (Name h) ''/go.mod'' = vertag))"
  by (induction hs arbitrary: s) (simp_all add: survey_step_useVersionedDir disj_assoc)

lemma collectGitArchiveOpts_license:
  assumes "collectGitArchiveOpts env gitdir pfx treeish vertag = (first, Inr (cmdArgs, license))"
  shows "\<exists>out. getGitOutputCmd env gitdir ([''archive'', ''--format=tar'', treeish] @ vendorExcludes)
                  = Some (out, True)
           \<and> \<not> broken out
           \<and> license =
               (if \<exists>h \<in> set (headers out). Typeflag h = TypeReg \<and> HasSuffix (Name h) ''/go.mod''
                      \<and> TrimSuffix (Name h) ''/go.mod'' = vertag
                then \<exists>h \<in> set (headers out). Typeflag h = TypeReg \<and> Name h = vertag @ ''/LICENSE''
                else \<exists>h \<in> set (headers out). Typeflag h = TypeReg \<and> Name h = ''LICENSE'')"
proof -
  let ?args = "[''archive'', ''--format=tar'', treeish] @ vendorExcludes"
  let ?s0 = "\<lparr>hasLicense = False, hasVerLicense = False, useVersionedDir = False,
               filteredPaths = []\<rparr>"
  from assms obtain out waitOk where o: "getGitOutputCmd env gitdir ?args = Some (out, waitOk)"
    by (cases "getGitOutputCmd env gitdir ?args")
       (auto simp: collectGitArchiveOpts_def Let_def)
  let ?s = "foldl (survey_step vertag) ?s0 (headers out)"
  have nb: "\<not> broken out"
    using assms o by (auto simp: collectGitArchiveOpts_def Let_def split: if_splits)
  have w: "waitOk"
    using assms o nb by (auto simp: collectGitArchiveOpts_def Let_def split: if_splits)
  have l: "license = (if useVersionedDir ?s then hasVerLicense ?s else hasLicense ?s)"
    using assms o nb w by (simp add: collectGitArchiveOpts_def Let_def)
  have "license =
               (if \<exists>h \<in> set (headers out). Typeflag h = TypeReg \<and> HasSuffix (Name h) ''/go.mod''
                      \<and> TrimSuffix (Name h) ''/go.mod'' = vertag
                then \<exists>h \<in> set (headers out). Typeflag h = TypeReg \<and> Name h = vertag @ ''/LICENSE''
                else \<exists>h \<in> set (headers out). Typeflag h = TypeReg \<and> Name h = ''LICENSE'')"
    unfolding l survey_useVersionedDir survey_hasVerLicense survey_hasLicense by auto
  moreover from o w have "getGitOutputCmd env gitdir ?args = Some (out, True)" by simp
  ultimately show ?thesis using nb by (intro exI [of _ out] conjI)
qed

lemma serveModGit_zip_result:
  assumes "serveModGit_resolve env modulePath subPath verCanonical = (logs, Inr (refspec, tm))"
  shows "serveModGit env modulePath verMajorTag subPath verCanonical ''.zip'' incompat
           = (logs @ fst (serveModGit_zip env (pathJoin env modulePath ''.git'') refspec subPath
                            verMajorTag
                            (modulePath @ (if subPath \<noteq> [] then ''/'' @ subPath else [])
                               @ (if verMajorTag \<noteq> [] then ''/'' @ verMajorTag else []))
                            (if incompat then verCanonical @ ''+incompatible'' else verCanonical)),
              snd (serveModGit_zip env (pathJoin env modulePath ''.git'') refspec subPath
                            verMajorTag
                            (modulePath @ (if subPath \<noteq> [] then ''/'' @ subPath else [])
                               @ (if verMajorTag \<noteq> [] then ''/'' @ verMajorTag else []))
                            (if incompat then verCanonical @ ''+incompatible'' else verCanonical)))"
  using assms by (simp add: serveModGit_def Let_def split_beta)

lemma serveModGit_license_first:
  "\<exists>rest. fst (serveModGit_license env gitdir pfx refspec)
     = GitCmd gitdir [''archive'', ''--format=tar'', refspec @ ''^{tree}'', ''LICENSE''] # rest"
  by (simp add: serveModGit_license_def Let_def split_beta split: option.splits)

lemma serveModGit_passes_license:
  assumes "serveModGit_passes env gitdir pfx refspec subPath verMajorTag = (acts, Inr license)"
  shows "\<exists>first cmdArgs.
           collectGitArchiveOpts env gitdir pfx (refspec @ ''^{tree}:'' @ subPath) verMajorTag
             = (first, Inr (cmdArgs, license))"
  using assms
  by (auto simp: serveModGit_passes_def Let_def
           split: prod.splits sum.splits if_splits exit_status.splits)

text \<open>
  Claim C7, as the code has it. Let a \<open>.zip\<close> request reach the end of the third pass:
  \<open>serveModGit_resolve\<close> has resolved the refspec after the commands \<open>logs\<close>, and
  the three passes (\<open>serveModGit_passes\<close>) have run the commands \<open>acts\<close> without error;
  \<open>license\<close> is the \<open>hasLicense\<close> that \<open>collectGitArchiveOpts\<close> returned
  (\<open>collectGitArchiveOpts_license\<close> says what it means for the tree). The
  fourth pass is skipped, and the archive returned as it is, exactly when the first pass
  found a \<open>LICENSE\<close> or the request has neither a subdirectory nor a major tag; in
  every other case (no \<open>LICENSE\<close> found, and a subdirectory or a major tag) the next
  command is the extraction of \<open>LICENSE\<close> from \<open>refspec^{tree}\<close>.
\<close>

theorem serveModGit_license_pass:
  assumes "serveModGit_resolve env modulePath subPath verCanonical = (logs, Inr (refspec, tm))"
    and "gitdir = pathJoin env modulePath ''.git''"
    and "modFull = modulePath @ (if subPath \<noteq> [] then ''/'' @ subPath else [])
                     @ (if verMajorTag \<noteq> [] then ''/'' @ verMajorTag else [])"
    and "ver = (if incompat then verCanonical @ ''+incompatible'' else verCanonical)"
    and "pfx = modFull @ ''@'' @ ver @ ''/''"
    and "serveModGit_passes env gitdir pfx refspec subPath verMajorTag = (acts, Inr license)"
    and "result = serveModGit env modulePath verMajorTag subPath verCanonical ''.zip'' incompat"
  shows "(\<exists>first cmdArgs.
            collectGitArchiveOpts env gitdir pfx (refspec @ ''^{tree}:'' @ subPath) verMajorTag
              = (first, Inr (cmdArgs, license)))
       \<and> (license \<or> (subPath = [] \<and> verMajorTag = []) \<longrightarrow> result = (logs @ acts, Inr ArchiveTmp))
       \<and> (\<not> license \<and> (subPath \<noteq> [] \<or> verMajorTag \<noteq> []) \<longrightarrow>
            (\<exists>rest. fst result = logs @ acts
               @ GitCmd gitdir [''archive'', ''--format=tar'', refspec @ ''^{tree}'', ''LICENSE'']
               # rest))"
proof -
  let ?z = "serveModGit_zip env gitdir refspec subPath verMajorTag modFull ver"
  have res: "result = (logs @ fst ?z, snd ?z)"
    unfolding assms(7) assms(2) assms(3) assms(4) by (rule serveModGit_zip_result [OF assms(1)])
  have passes: "serveModGit_passes env gitdir (Join [modFull, ver] ''@'' @ ''/'') refspec subPath
                  verMajorTag = (acts, Inr license)"
    using assms(6) by (simp add: assms(5))
  have lic: "serveModGit_license env gitdir (Join [modFull, ver] ''@'' @ ''/'') refspec
               = serveModGit_license env gitdir pfx refspec"
    by (simp add: assms(5))
  have skip: "?z = (acts, Inr ArchiveTmp)" if "license \<or> (subPath = [] \<and> verMajorTag = [])"
    unfolding serveModGit_zip_def Let_def passes using that by auto
  have run: "\<exists>rest. fst ?z = acts
               @ GitCmd gitdir [''archive'', ''--format=tar'', refspec @ ''^{tree}'', ''LICENSE'']
               # rest"
    if "\<not> license \<and> (subPath \<noteq> [] \<or> verMajorTag \<noteq> [])"
  proof -
    obtain rest where "fst (serveModGit_license env gitdir pfx refspec)
       = GitCmd gitdir [''archive'', ''--format=tar'', refspec @ ''^{tree}'', ''LICENSE''] # rest"
      using serveModGit_license_first by blast
    then have "fst ?z = acts
               @ GitCmd gitdir [''archive'', ''--format=tar'', refspec @ ''^{tree}'', ''LICENSE'']
               # rest"
      unfolding serveModGit_zip_def Let_def passes lic using that by (auto simp: split_beta)
    then show ?thesis by blast
  qed
  show ?thesis
    using serveModGit_passes_license [OF assms(6)] skip run by (auto simp: res)
qed

text \<open>The definitions that evaluate the example environments and the versions.\<close>

lemmas envs = offlineEnv_def plainTagEnv_def repoEnv_def regularFile_def rootModule_def
  licensedTree_def bareTree_def TypeReg_def TypeDir_def zeroTime_def

lemmas semver_ev = semver_Canonical_def semver_Build_def parse_def parse_tail_def parseInt_def
  parseBuild_def parsePrerelease_def isIdentChar_def isBadNum_def isDigit_def
  less_eq_char_def less_char_def Let_def

text \<open>In a repository whose tag is \<open>1.2.3\<close>, both functions query \<open>v1.2.3\<close> and
  then \<open>1.2.3\<close>; with a subdirectory only \<open>sub/v1.2.3\<close> is queried.\<close>

theorem refspec_and_retry_witness:
  "logRefspecs (fst (cacheModGit plainTagEnv ''example.com/a'' [] ''v1.2.3'' []))
     = [''v1.2.3'', ''1.2.3'']
   \<and> logRefspecs (fst (serveModGit plainTagEnv ''example.com/a'' [] [] ''v1.2.3'' ''.info'' False))
     = [''v1.2.3'', ''1.2.3'']
   \<and> logRefspecs (fst (cacheModGit plainTagEnv ''example.com/a'' ''sub'' ''v1.2.3'' []))
     = [''sub/v1.2.3'']"
proof -
  have c: "semver_Canonical ''v1.2.3'' = ''v1.2.3''" by (simp add: semver_ev)
  show ?thesis
    using refspec_and_retry [OF refl refl refl refl, where env = plainTagEnv and subPath = "[]"
            and ver = "''v1.2.3''" and modulePath = "''example.com/a''" and verMajorTag = "[]"
            and ext = "''.info''" and incompat = False]
      refspec_and_retry [OF refl refl refl refl, where env = plainTagEnv and subPath = "''sub''"
            and ver = "''v1.2.3''" and modulePath = "''example.com/a''" and verMajorTag = "[]"
            and ext = "''.info''" and incompat = False]
    by (simp add: c envs commitTime_def HasPrefix_def)
qed

lemma resolve_repoEnv:
  "serveModGit_resolve (repoEnv archive) ''example.com/a'' subPath ''v2.0.0''
     = ([GitCmd ''example.com/a/.git''
           [''log'', ''-1'', ''--format=%ct'',
            if subPath \<noteq> [] then subPath @ ''/v2.0.0'' else ''v2.0.0'']],
        Inr (if subPath \<noteq> [] then subPath @ ''/v2.0.0'' else ''v2.0.0'', 1700000000))"
  by (simp add: serveModGit_resolve_def serveModGit_retry_refspec.simps commitTime_def envs Let_def)

text \<open>A module \<open>v2\<close> whose \<open>go.mod\<close> lies at the root: the tagged extraction fails
  and the second one gives the body. A repository without any \<open>go.mod\<close>: the body
  is synthesized.\<close>

theorem serveModGit_mod_extraction_witness:
  "serveModGit (repoEnv rootModule) ''example.com/a'' ''v2'' [] ''v2.0.0'' ''.mod'' False
     = ([GitCmd ''example.com/a/.git'' [''log'', ''-1'', ''--format=%ct'', ''v2.0.0''],
         GitCmd ''example.com/a/.git'' [''archive'', ''--format=tar'', ''v2.0.0^{tree}:v2'', ''go.mod''],
         GitCmd ''example.com/a/.git'' [''archive'', ''--format=tar'', ''v2.0.0^{tree}:'', ''go.mod'']],
        Inr (Bytes ''...''))
   \<and> snd (serveModGit (repoEnv (\<lambda>args. [])) ''example.com/a'' ''v2'' ''sub'' ''v2.0.0'' ''.mod'' False)
     = Inr (Bytes (''module example.com/a/sub/v2'' @ [CHR 0x0A]))"
proof -
  have e1: "extractGoMod (repoEnv rootModule) ''example.com/a/.git''
              [''archive'', ''--format=tar'', ''v2.0.0^{tree}:v2'', ''go.mod''] = NoGoMod"
    and e2: "extractGoMod (repoEnv rootModule) ''example.com/a/.git''
              [''archive'', ''--format=tar'', ''v2.0.0^{tree}:'', ''go.mod''] = Extracted ''...''"
    and e3: "\<And>args. extractGoMod (repoEnv (\<lambda>args. [])) ''example.com/a/.git'' args = NoGoMod"
    by (simp_all add: extractGoMod_def getSingleFileFromTar_def envs)
  have g: "pathJoin (repoEnv archive) ''example.com/a'' ''.git'' = ''example.com/a/.git''" for archive
    by (simp add: envs)
  show ?thesis
    using serveModGit_mod_extraction [OF resolve_repoEnv [of rootModule "[]"] refl refl refl refl refl refl,
            where verMajorTag = "''v2''" and data = "''...''" and incompat = False]
      serveModGit_mod_extraction [OF resolve_repoEnv [of "\<lambda>args. []" "''sub''"] refl refl refl refl refl refl,
            where verMajorTag = "''v2''" and data = "''...''" and incompat = False]
    by (simp add: g e1 e2 e3 prod_eq_iff)
qed

lemma passes_repoEnv_licensed:
  "serveModGit_passes (repoEnv licensedTree) ''example.com/a/.git'' ''example.com/a/sub@v2.0.0/''
       ''sub/v2.0.0'' ''sub'' []
     = ([GitCmd ''example.com/a/.git''
           ([''archive'', ''--format=tar'', ''sub/v2.0.0^{tree}:sub''] @ vendorExcludes),
         CreateTmp ''.tmp'',
         GitCmd ''example.com/a/.git''
           ([''archive'', ''--prefix'', ''example.com/a/sub@v2.0.0/'', ''--format=zip'', ''-0'',
             ''sub/v2.0.0^{tree}:sub''] @ vendorExcludes),
         ZipCmd [] [''-d'', ''.tmp/zip-fd3.zip'', ''*/'']],
        Inr True)"
  by (simp add: serveModGit_passes_def collectGitArchiveOpts_def survey_step_def
        HasSuffix_def TrimSuffix_def envs Let_def)

lemma passes_repoEnv_bare:
  "serveModGit_passes (repoEnv bareTree) ''example.com/a/.git'' ''example.com/a/sub@v2.0.0/''
       ''sub/v2.0.0'' ''sub'' []
     = ([GitCmd ''example.com/a/.git''
           ([''archive'', ''--format=tar'', ''sub/v2.0.0^{tree}:sub''] @ vendorExcludes),
         CreateTmp ''.tmp'',
         GitCmd ''example.com/a/.git''
           ([''archive'', ''--prefix'', ''example.com/a/sub@v2.0.0/'', ''--format=zip'', ''-0'',
             ''sub/v2.0.0^{tree}:sub''] @ vendorExcludes),
         ZipCmd [] [''-d'', ''.tmp/zip-fd3.zip'', ''*/'']],
        Inr False)"
  by (simp add: serveModGit_passes_def collectGitArchiveOpts_def survey_step_def
        HasSuffix_def TrimSuffix_def envs Let_def)

text \<open>
  Claim C6 as stated fails: it has the operation succeed whenever the extractions fail.
  When \<open>git archive\<close> cannot be started (\<open>getGitOutputCmd\<close> returns an error, as
  when no file descriptor is left for its pipe), the extraction of \<open>go.mod\<close> fails, no
  second extraction is made although there is a major tag, and \<open>serveModGit\<close> returns
  an error (\<open>Failed to run git archive\<close>) instead of a synthesized body.
\<close>

theorem serveModGit_mod_not_started_counterexample:
  "extractGoMod stalledEnv ''example.com/a/.git''
       [''archive'', ''--format=tar'', ''v2.0.0^{tree}:v2'', ''go.mod''] = NotStarted
   \<and> serveModGit stalledEnv ''example.com/a'' ''v2'' [] ''v2.0.0'' ''.mod'' False
     = ([GitCmd ''example.com/a/.git'' [''log'', ''-1'', ''--format=%ct'', ''v2.0.0''],
         GitCmd ''example.com/a/.git''
           [''archive'', ''--format=tar'', ''v2.0.0^{tree}:v2'', ''go.mod'']],
        Inl FailedGitArchiveMod)"
  by (simp add: serveModGit_def serveModGit_resolve_def serveModGit_retry_refspec.simps
        commitTime_def serveModGit_mod_def serveModGit_retry_mod.simps extractGoMod_def
        stalledEnv_def envs Let_def)

text \<open>A request with a subdirectory: in a tree with a \<open>LICENSE\<close> the fourth pass is
  skipped, in a tree without one it is run.\<close>

theorem serveModGit_license_pass_witness:
  "serveModGit (repoEnv licensedTree) ''example.com/a'' [] ''sub'' ''v2.0.0'' ''.zip'' False
     = ([GitCmd ''example.com/a/.git'' [''log'', ''-1'', ''--format=%ct'', ''sub/v2.0.0''],
         GitCmd ''example.com/a/.git''
           ([''archive'', ''--format=tar'', ''sub/v2.0.0^{tree}:sub''] @ vendorExcludes),
         CreateTmp ''.tmp'',
         GitCmd ''example.com/a/.git''
           ([''archive'', ''--prefix'', ''example.com/a/sub@v2.0.0/'', ''--format=zip'', ''-0'',
             ''sub/v2.0.0^{tree}:sub''] @ vendorExcludes),
         ZipCmd [] [''-d'', ''.tmp/zip-fd3.zip'', ''*/'']],
        Inr ArchiveTmp)
   \<and> (\<exists>rest. fst (serveModGit (repoEnv bareTree) ''example.com/a'' [] ''sub'' ''v2.0.0'' ''.zip'' False)
         = [GitCmd ''example.com/a/.git'' [''log'', ''-1'', ''--format=%ct'', ''sub/v2.0.0''],
            GitCmd ''example.com/a/.git''
              ([''archive'', ''--format=tar'', ''sub/v2.0.0^{tree}:sub''] @ vendorExcludes),
            CreateTmp ''.tmp'',
            GitCmd ''example.com/a/.git''
              ([''archive'', ''--prefix'', ''example.com/a/sub@v2.0.0/'', ''--format=zip'', ''-0'',
                ''sub/v2.0.0^{tree}:sub''] @ vendorExcludes),
            ZipCmd [] [''-d'', ''.tmp/zip-fd3.zip'', ''*/''],
            GitCmd ''example.com/a/.git''
              [''archive'', ''--format=tar'', ''sub/v2.0.0^{tree}'', ''LICENSE'']] @ rest)"
proof -
  have g: "pathJoin (repoEnv archive) ''example.com/a'' ''.git'' = ''example.com/a/.git''" for archive
    by (simp add: envs)
  have r: "serveModGit_resolve (repoEnv archive) ''example.com/a'' ''sub'' ''v2.0.0''
     = ([GitCmd ''example.com/a/.git'' [''log'', ''-1'', ''--format=%ct'', ''sub/v2.0.0'']],
        Inr (''sub/v2.0.0'', 1700000000))" for archive
    using resolve_repoEnv [of archive "''sub''"] by simp
  have a: "serveModGit_passes (repoEnv licensedTree)
             (pathJoin (repoEnv licensedTree) ''example.com/a'' ''.git'')
             ((''example.com/a'' @ (if ''sub'' \<noteq> [] then ''/'' @ ''sub'' else [])
                 @ (if ([]::string) \<noteq> [] then ''/'' @ [] else []))
               @ ''@'' @ (if False then ''v2.0.0'' @ ''+incompatible'' else ''v2.0.0'') @ ''/'')
             ''sub/v2.0.0'' ''sub'' [] = (fst (serveModGit_passes (repoEnv licensedTree) ''example.com/a/.git'' ''example.com/a/sub@v2.0.0/''
       ''sub/v2.0.0'' ''sub'' []), Inr True)"
    by (simp add: g passes_repoEnv_licensed)
  have b: "serveModGit_passes (repoEnv bareTree)
             (pathJoin (repoEnv bareTree) ''example.com/a'' ''.git'')
             ((''example.com/a'' @ (if ''sub'' \<noteq> [] then ''/'' @ ''sub'' else [])
                 @ (if ([]::string) \<noteq> [] then ''/'' @ [] else []))
               @ ''@'' @ (if False then ''v2.0.0'' @ ''+incompatible'' else ''v2.0.0'') @ ''/'')
             ''sub/v2.0.0'' ''sub'' [] = (fst (serveModGit_passes (repoEnv bareTree) ''example.com/a/.git'' ''example.com/a/sub@v2.0.0/''
       ''sub/v2.0.0'' ''sub'' []), Inr False)"
    by (simp add: g passes_repoEnv_bare)
  show ?thesis
    using serveModGit_license_pass [OF r refl refl refl refl a refl]
      serveModGit_license_pass [OF r refl refl refl refl b refl]
    by (simp add: g passes_repoEnv_licensed passes_repoEnv_bare)
qed

text \<open>
  Claim C7 as stated fails: it has the fourth pass skipped only when the first pass
  found no \<open>LICENSE\<close> and there is neither a subdirectory nor a tag, and attempted in
  every other case. For a request with the subdirectory \<open>sub\<close> in a tree that holds a
  \<open>LICENSE\<close>, the first pass reports the \<open>LICENSE\<close>, the claim's condition for
  skipping does not hold, and \<open>serveModGit\<close> returns the archive after the third pass
  without running the extraction of \<open>LICENSE\<close>.
\<close>

theorem serveModGit_license_pass_counterexample:
  "snd (serveModGit_passes (repoEnv licensedTree) ''example.com/a/.git''
          ''example.com/a/sub@v2.0.0/'' ''sub/v2.0.0'' ''sub'' []) = Inr True
   \<and> \<not> spec_skipsLicensePass True ''sub'' []
   \<and> serveModGit (repoEnv licensedTree) ''example.com/a'' [] ''sub'' ''v2.0.0'' ''.zip'' False
     = ([GitCmd ''example.com/a/.git'' [''log'', ''-1'', ''--format=%ct'', ''sub/v2.0.0''],
         GitCmd ''example.com/a/.git''
           ([''archive'', ''--format=tar'', ''sub/v2.0.0^{tree}:sub''] @ vendorExcludes),
         CreateTmp ''.tmp'',
         GitCmd ''example.com/a/.git''
           ([''archive'', ''--prefix'', ''example.com/a/sub@v2.0.0/'', ''--format=zip'', ''-0'',
             ''sub/v2.0.0^{tree}:sub''] @ vendorExcludes),
         ZipCmd [] [''-d'', ''.tmp/zip-fd3.zip'', ''*/'']],
        Inr ArchiveTmp)"
proof -
  have g: "pathJoin (repoEnv licensedTree) ''example.com/a'' ''.git'' = ''example.com/a/.git''"
    by (simp add: envs)
  show ?thesis
    by (simp add: spec_skipsLicensePass_def serveModGit_def serveModGit_zip_def
          resolve_repoEnv g passes_repoEnv_licensed Let_def)
qed

end
